theory Spec2Isabelle
  imports Complex_Main "HOL-Library.Word"
begin

section \<open>The All-Hardware CI transport (ci\_api\_server.py)\<close>

text \<open>
  A shallow embedding of the class \<open>AllHWCIAPIHandlerImpl\<close>. The object is a record
  that every method takes and returns; a method that raises returns \<open>Inl\<close> of the error
  together with the object as the raise leaves it (Python mutates in place, so the
  assignments made before a raise stay). The two polling loops may run forever; they are
  recursive in an iteration bound, and \<open>None\<close> means that the loop is still running
  after that many iterations.

  The remote service, the clock and the two library functions the code calls are an
  environment \<open>env\<close>: the k-th GET, the k-th POST and the k-th reading of
  \<open>time.monotonic()\<close> are functions of k (and of the request), and the record
  \<open>world\<close> counts how many of each have happened and how long the code has slept.
  An HTTP call is taken to return a response (a status code, a body and what
  \<open>response.json()\<close> makes of it), and writing the temporary input file and opening
  the firmware file are taken to succeed: an exception raised inside \<open>requests\<close>,
  \<open>tempfile\<close> or \<open>open\<close> is not part of the model. Clock readings are real
  numbers; a timeout and a deadline are Python floats, and the addition that makes the
  deadline is the environment's \<open>float_add\<close>, any function: nothing proved below depends
  on how it rounds. \<open>n\<close> is a Python integer, and slices follow Python for every sign
  of their bounds; the cursor only ever grows by lengths, so it is a natural number.
\<close>

subsection \<open>Data\<close>

type_synonym bytes = "8 word list"

datatype pyval = PyNone | PyStr string | PyInt int | PyFloat real

text \<open>A Python float: a finite value, an infinity or not-a-number.\<close>

datatype pyfloat = Fin real | PosInf | NegInf | NaN

type_synonym dict = "(string \<times> pyval) list"

datatype json =
    JNull
  | JBool bool
  | JNum real
  | JStr string
  | JArr "json list"
  | JObj "(string \<times> json) list"

datatype error = CITransportUsageError | TransportClosedError | IoTimeoutError

record response =
  status_code :: int
  text_body :: string
  json_body :: "json option"

record transport_timeouts =
  session_start_retry_timeout_sec :: real
  session_start_timeout_sec :: real
  session_established_timeout_sec :: real

record session =
  url :: pyval
  api_key :: pyval
  task_timeout :: pyval
  rate :: pyval
  log_flag :: pyval
  options :: "dict option"
  task_id :: "string option"
  closed_flag :: bool
  readpos :: nat
  readbuf :: bytes
  finished :: bool
  firmware :: "string option"

record submission =
  sub_url :: pyval
  sub_rate :: pyval
  sub_log :: pyval
  sub_timeout :: pyval
  sub_key :: pyval
  sub_firmware :: "string option"
  sub_input :: bytes

record env =
  monotonic :: "nat \<Rightarrow> real"
  float_add :: "pyfloat \<Rightarrow> pyfloat \<Rightarrow> pyfloat"
  http_get :: "nat \<Rightarrow> pyval \<Rightarrow> string option \<Rightarrow> response"
  http_post :: "nat \<Rightarrow> submission \<Rightarrow> response"
  b64decode :: "string \<Rightarrow> bytes option"
  getcwd :: string

record world =
  clock_reads :: nat
  gets :: nat
  posts :: nat
  slept :: real

subsection \<open>Python helpers\<close>

text \<open>\<open>d.get(k)\<close>: the value, or \<open>None\<close> when the key is absent.\<close>

definition dict_get :: "dict \<Rightarrow> string \<Rightarrow> pyval" where
  "dict_get d k = (case map_of d k of None \<Rightarrow> PyNone | Some v \<Rightarrow> v)"

text \<open>A slice bound of \<open>xs[a:b]\<close>: a negative bound counts from the end, and both
  are clamped to the sequence.\<close>

definition py_bound :: "nat \<Rightarrow> int \<Rightarrow> nat" where
  "py_bound len i = (if i < 0 then nat (max 0 (int len + i)) else min len (nat i))"

definition py_slice :: "'a list \<Rightarrow> int \<Rightarrow> int \<Rightarrow> 'a list" where
  "py_slice xs a b =
     (let lo = py_bound (length xs) a; hi = py_bound (length xs) b
      in take (hi - lo) (drop lo xs))"

definition is_ascii :: "string \<Rightarrow> bool" where
  "is_ascii str = list_all (\<lambda>c. of_char c < (128::nat)) str"

text \<open>\<open>time.sleep(0.5)\<close>\<close>

definition sleep :: "world \<Rightarrow> world" where
  "sleep w = w\<lparr>slept := slept w + 1 / 2\<rparr>"

text \<open>\<open>time.monotonic()\<close>: the next reading of the clock.\<close>

definition tick :: "world \<Rightarrow> world" where
  "tick w = w\<lparr>clock_reads := clock_reads w + 1\<rparr>"

definition read_clock :: "env \<Rightarrow> world \<Rightarrow> pyfloat \<times> world" where
  "read_clock e w = (Fin (monotonic e (clock_reads w)), tick w)"

text \<open>\<open>a < b\<close> on floats: false whenever one side is not a number.\<close>

fun float_less :: "pyfloat \<Rightarrow> pyfloat \<Rightarrow> bool" where
  "float_less NaN b = False"
| "float_less a NaN = False"
| "float_less (Fin x) (Fin y) = (x < y)"
| "float_less (Fin x) PosInf = True"
| "float_less (Fin x) NegInf = False"
| "float_less NegInf NegInf = False"
| "float_less NegInf b = True"
| "float_less PosInf b = False"

subsection \<open>Construction and options\<close>

definition set_options :: "dict option \<Rightarrow> session \<Rightarrow> session" where
  "set_options opts s =
     (case opts of
        None \<Rightarrow> s
      | Some d \<Rightarrow>
          (let s0 = s\<lparr>options := Some d\<rparr>;
               s1 = (if dict_get d ''url'' \<noteq> PyNone then s0\<lparr>url := dict_get d ''url''\<rparr> else s0);
               s2 = (if dict_get d ''api_key'' \<noteq> PyNone
                     then s1\<lparr>api_key := dict_get d ''api_key''\<rparr> else s1);
               s3 = (if dict_get d ''task_timeout'' \<noteq> PyNone
                     then s2\<lparr>task_timeout := dict_get d ''task_timeout''\<rparr> else s2);
               s4 = (if dict_get d ''rate'' \<noteq> PyNone then s3\<lparr>rate := dict_get d ''rate''\<rparr> else s3)
           in if dict_get d ''log'' \<noteq> PyNone then s4\<lparr>log_flag := dict_get d ''log''\<rparr> else s4))"

definition init :: "dict option \<Rightarrow> session" where
  "init opts =
     (set_options opts
        \<lparr>url = PyStr ''https://cloud.all-hw.com/ci/usertask'',
         api_key = PyStr ''85282cff-fc94-4ed1-8633-6c74637e95e0'',
         task_timeout = PyInt 20,
         rate = PyInt 115200,
         log_flag = PyInt 0,
         options = None,
         task_id = None,
         closed_flag = True,
         readpos = 0,
         readbuf = [],
         finished = False,
         firmware = None\<rparr>)
       \<lparr>task_id := None, closed_flag := True, readpos := 0, readbuf := [],
        finished := False, firmware := None\<rparr>"

subsection \<open>Lifecycle: flash, open\_transport, close\_transport\<close>

definition flash :: "env \<Rightarrow> dict option \<Rightarrow> session \<Rightarrow> (error + unit) \<times> session" where
  "flash e opts s =
     (if \<not> closed_flag s then (Inl CITransportUsageError, s)
      else
        (Inr (),
         (set_options opts (s\<lparr>firmware := Some (getcwd e @ ''/build/zephyr/zephyr.hex'')\<rparr>))
           \<lparr>readbuf := [], finished := False, closed_flag := True\<rparr>))"

definition open_transport ::
  "dict option \<Rightarrow> session \<Rightarrow> (error + transport_timeouts) \<times> session" where
  "open_transport opts s =
     (if \<not> closed_flag s then (Inl CITransportUsageError, s)
      else
        (Inr \<lparr>session_start_retry_timeout_sec = 0,
              session_start_timeout_sec = 0,
              session_established_timeout_sec = 0\<rparr>,
         (set_options opts s)
           \<lparr>readpos := 0, readbuf := [], finished := False, closed_flag := False\<rparr>))"

definition close_transport :: "session \<Rightarrow> session" where
  "close_transport s = s\<lparr>closed_flag := True, readbuf := [], task_id := None\<rparr>"

subsection \<open>read\_transport\<close>

text \<open>
  The body of \<open>if response.status_code == 200: try: ... except Exception: pass\<close>.
  \<open>response.json()\<close> may raise, \<open>json['status']\<close> raises unless the value is an
  object with that key, \<open>json['output']\<close> raises when the key is absent,
  \<open>bytes(output, 'ascii')\<close> raises unless the output is an ASCII string, and the
  decoder may raise. Every raise ends the block with the assignments made so far kept, so
  \<open>finished\<close> stays set when the output is absent or bad.
\<close>

definition store_output :: "env \<Rightarrow> json \<Rightarrow> session \<Rightarrow> session" where
  "store_output e output s =
     (case output of
        JNull \<Rightarrow> s
      | JStr out \<Rightarrow>
          (if is_ascii out
           then (case b64decode e out of None \<Rightarrow> s | Some b \<Rightarrow> s\<lparr>readbuf := b\<rparr>)
           else s)
      | _ \<Rightarrow> s)"

definition refresh_json :: "env \<Rightarrow> json \<Rightarrow> session \<Rightarrow> session" where
  "refresh_json e j s =
     (case j of
        JObj kv \<Rightarrow>
          (case map_of kv ''status'' of
             None \<Rightarrow> s
           | Some st \<Rightarrow>
               (let s1 = (if st = JStr ''finished'' then s\<lparr>finished := True\<rparr> else s)
                in case map_of kv ''output'' of
                     None \<Rightarrow> s1
                   | Some output \<Rightarrow> store_output e output s1))
      | _ \<Rightarrow> s)"

definition refresh :: "env \<Rightarrow> response \<Rightarrow> session \<Rightarrow> session" where
  "refresh e r s =
     (if status_code r = 200
      then (case json_body r of None \<Rightarrow> s | Some j \<Rightarrow> refresh_json e j s)
      else s)"

text \<open>
  The loop body of \<open>read_transport\<close>, in the order of the source: refresh the buffer
  when nothing is unread and the task is not known to be finished (\<open>poll\<close>), move unread
  bytes to the result (\<open>consume\<close>), then leave the loop when enough was read, when the
  task is finished, or when the deadline has passed; otherwise sleep and go round again.
  \<open>truncate\<close> is the final \<open>ret[0:n] if len(ret) > n else ret\<close>.
\<close>

definition poll :: "env \<Rightarrow> session \<Rightarrow> world \<Rightarrow> session \<times> world" where
  "poll e s w =
     (if length (readbuf s) \<le> readpos s \<and> \<not> finished s
      then (refresh e (http_get e (gets w) (url s) (task_id s)) s, w\<lparr>gets := gets w + 1\<rparr>)
      else (s, w))"

definition consume :: "int \<Rightarrow> bytes \<Rightarrow> session \<Rightarrow> bytes \<times> session" where
  "consume n ret s =
     (if length (readbuf s) > readpos s
      then (let portion = py_slice (readbuf s) (int (readpos s))
                            (int (readpos s) + n - int (length ret))
            in (ret @ portion, s\<lparr>readpos := readpos s + length portion\<rparr>))
      else (ret, s))"

definition truncate_ret :: "int \<Rightarrow> bytes \<Rightarrow> bytes" where
  "truncate_ret n ret = (if int (length ret) > n then py_slice ret 0 n else ret)"

fun read_loop ::
  "env \<Rightarrow> nat \<Rightarrow> int \<Rightarrow> pyfloat option \<Rightarrow> bytes \<Rightarrow> session \<Rightarrow> world
     \<Rightarrow> ((error + bytes) \<times> session \<times> world) option" where
  "read_loop e 0 n end_time ret s w = None"
| "read_loop e (Suc fuel) n end_time ret s w =
     (let (s1, w1) = poll e s w;
          (ret1, s2) = consume n ret s1
      in if int (length ret1) \<ge> n then Some (Inr (truncate_ret n ret1), s2, w1)
         else if finished s2
         then (if length ret1 = 0 then Some (Inl IoTimeoutError, s2, w1)
               else Some (Inr (truncate_ret n ret1), s2, w1))
         else (case end_time of
                 None \<Rightarrow> read_loop e fuel n end_time ret1 s2 (sleep w1)
               | Some t \<Rightarrow>
                   (let (now, w2) = read_clock e w1
                    in if float_less t now then Some (Inl IoTimeoutError, s2, w2)
                       else read_loop e fuel n end_time ret1 s2 (sleep w2))))"

definition read_transport ::
  "env \<Rightarrow> nat \<Rightarrow> int \<Rightarrow> pyfloat option \<Rightarrow> session \<Rightarrow> world
     \<Rightarrow> ((error + bytes) \<times> session \<times> world) option" where
  "read_transport e fuel n timeout_sec s w =
     (if closed_flag s then Some (Inl TransportClosedError, s, w)
      else if task_id s = None then Some (Inl CITransportUsageError, s, w)
      else
        (case timeout_sec of
           None \<Rightarrow> read_loop e fuel n None [] s w
         | Some t \<Rightarrow>
             (let (now, w1) = read_clock e w
              in read_loop e fuel n (Some (float_add e now t)) [] s w1)))"

subsection \<open>write\_transport\<close>

definition submission_of :: "session \<Rightarrow> bytes \<Rightarrow> submission" where
  "submission_of s data =
     \<lparr>sub_url = url s, sub_rate = rate s, sub_log = log_flag s,
      sub_timeout = task_timeout s, sub_key = api_key s,
      sub_firmware = firmware s, sub_input = data\<rparr>"

fun write_loop ::
  "env \<Rightarrow> nat \<Rightarrow> bytes \<Rightarrow> pyfloat option \<Rightarrow> session \<Rightarrow> world
     \<Rightarrow> ((error + unit) \<times> session \<times> world) option" where
  "write_loop e 0 data end_time s w = None"
| "write_loop e (Suc fuel) data end_time s w =
     (let r = http_post e (posts w) (submission_of s data);
          w1 = w\<lparr>posts := posts w + 1\<rparr>
      in if status_code r = 200
         then Some (Inr (), s\<lparr>task_id := Some (text_body r)\<rparr>, w1)
         else (case end_time of
                 None \<Rightarrow> write_loop e fuel data end_time s (sleep w1)
               | Some t \<Rightarrow>
                   (let (now, w2) = read_clock e w1
                    in if float_less t now then Some (Inl IoTimeoutError, s, w2)
                       else write_loop e fuel data end_time s (sleep w2))))"

text \<open>\<open>if not self.task_id is None: self.close_transport(); self.open_transport(self.options)\<close>\<close>

definition reopen :: "session \<Rightarrow> (error + unit) \<times> session" where
  "reopen s =
     (if task_id s \<noteq> None
      then (let s1 = close_transport s
            in case open_transport (options s1) s1 of
                 (Inl err, s2) \<Rightarrow> (Inl err, s2)
               | (Inr _, s2) \<Rightarrow> (Inr (), s2))
      else (Inr (), s))"

definition write_transport ::
  "env \<Rightarrow> nat \<Rightarrow> bytes \<Rightarrow> pyfloat option \<Rightarrow> session \<Rightarrow> world
     \<Rightarrow> ((error + unit) \<times> session \<times> world) option" where
  "write_transport e fuel data timeout_sec s w =
     (if closed_flag s \<or> firmware s = None then Some (Inl TransportClosedError, s, w)
      else
        (case reopen s of
           (Inl err, s1) \<Rightarrow> Some (Inl err, s1, w)
         | (Inr _, s1) \<Rightarrow>
             (case timeout_sec of
                None \<Rightarrow> write_loop e fuel data None s1 w
              | Some t \<Rightarrow>
                  (let (now, w1) = read_clock e w
                   in write_loop e fuel data (Some (float_add e now t)) s1 w1))))"

subsection \<open>What a poll delivers\<close>

text \<open>
  A reply counts when its status code is 200 and its body is a JSON object with a
  \<open>status\<close> key. \<open>reports_finished\<close> says that it latches the finished flag,
  \<open>snapshot\<close> is the buffer it installs, if any.
\<close>

definition reply_object :: "response \<Rightarrow> (string \<times> json) list option" where
  "reply_object r =
     (if status_code r = 200 then
        (case json_body r of
           Some (JObj kv) \<Rightarrow> (if map_of kv ''status'' = None then None else Some kv)
         | _ \<Rightarrow> None)
      else None)"

definition reports_finished :: "response \<Rightarrow> bool" where
  "reports_finished r =
     (case reply_object r of
        None \<Rightarrow> False
      | Some kv \<Rightarrow> map_of kv ''status'' = Some (JStr ''finished''))"

definition decoded :: "env \<Rightarrow> json \<Rightarrow> bytes option" where
  "decoded e output =
     (case output of
        JStr out \<Rightarrow> (if is_ascii out then b64decode e out else None)
      | _ \<Rightarrow> None)"

definition snapshot :: "env \<Rightarrow> response \<Rightarrow> bytes option" where
  "snapshot e r =
     (case reply_object r of
        None \<Rightarrow> None
      | Some kv \<Rightarrow>
          (case map_of kv ''output'' of None \<Rightarrow> None | Some output \<Rightarrow> decoded e output))"

subsection \<open>Sequences of calls\<close>

datatype call =
    Flash "dict option"
  | OpenTransport "dict option"
  | CloseTransport
  | ReadTransport int "pyfloat option"
  | WriteTransport bytes "pyfloat option"

text \<open>A call that raises leaves the object as the raise found it; the next call goes on
  from there.\<close>

fun step :: "env \<Rightarrow> nat \<Rightarrow> call \<Rightarrow> session \<times> world \<Rightarrow> (session \<times> world) option" where
  "step e fuel (Flash opts) (s, w) = Some (snd (flash e opts s), w)"
| "step e fuel (OpenTransport opts) (s, w) = Some (snd (open_transport opts s), w)"
| "step e fuel CloseTransport (s, w) = Some (close_transport s, w)"
| "step e fuel (ReadTransport n t) (s, w) = map_option snd (read_transport e fuel n t s w)"
| "step e fuel (WriteTransport data t) (s, w) = map_option snd (write_transport e fuel data t s w)"

fun run :: "env \<Rightarrow> nat \<Rightarrow> call list \<Rightarrow> session \<times> world \<Rightarrow> (session \<times> world) option" where
  "run e fuel [] sw = Some sw"
| "run e fuel (c # cs) sw =
     (case step e fuel c sw of None \<Rightarrow> None | Some sw' \<Rightarrow> run e fuel cs sw')"

subsection \<open>A small remote service, for concrete runs\<close>

text \<open>
  The service accepts every submission as task \<open>task-1\<close>. Its first status reply says
  that the task is running with output \<open>abc\<close> so far, every later one that it is
  finished with the same output. The clock advances by one second per reading.
\<close>

text \<open>The sums of the concrete runs are of small whole numbers, where binary64 addition is
  exact.\<close>

fun plain_add :: "pyfloat \<Rightarrow> pyfloat \<Rightarrow> pyfloat" where
  "plain_add (Fin x) (Fin y) = Fin (x + y)"
| "plain_add a b = NaN"

definition status_reply :: "string \<Rightarrow> json \<Rightarrow> response" where
  "status_reply st output =
     \<lparr>status_code = 200, text_body = [],
      json_body = Some (JObj [(''status'', JStr st), (''output'', output)])\<rparr>"

definition demo_env :: env where
  "demo_env =
     \<lparr>monotonic = (\<lambda>k. real k),
      float_add = plain_add,
      http_get = (\<lambda>k u t. status_reply (if k = 0 then ''running'' else ''finished'') (JStr ''YWJj'')),
      http_post = (\<lambda>k sub. \<lparr>status_code = 200, text_body = ''task-1'', json_body = None\<rparr>),
      b64decode = (\<lambda>x. if x = ''YWJj'' then Some [97, 98, 99] else None),
      getcwd = ''/project''\<rparr>"

text \<open>A service whose task finishes without any output.\<close>

definition silent_env :: env where
  "silent_env = demo_env\<lparr>http_get := (\<lambda>k u t. status_reply ''finished'' JNull)\<rparr>"

text \<open>A service whose second status reply carries less output than its first.\<close>

definition shrinking_env :: env where
  "shrinking_env =
     demo_env\<lparr>http_get := (\<lambda>k u t. status_reply ''running'' (JStr (if k = 0 then ''YWJj'' else []))),
              b64decode := (\<lambda>x. if x = ''YWJj'' then Some [97, 98, 99]
                                 else if x = [] then Some [] else None)\<rparr>"

text \<open>A service that refuses every submission.\<close>

definition refusing_env :: env where
  "refusing_env =
     demo_env\<lparr>http_post := (\<lambda>k sub. \<lparr>status_code = 503, text_body = [], json_body = None\<rparr>)\<rparr>"

definition world0 :: world where
  "world0 = \<lparr>clock_reads = 0, gets = 0, posts = 0, slept = 0\<rparr>"

text \<open>The object after \<open>flash\<close> and \<open>open_transport\<close>, and after a first write.\<close>

definition opened :: session where
  "opened = snd (open_transport None (snd (flash demo_env None (init None))))"

definition submitted :: session where
  "submitted = opened\<lparr>task_id := Some ''task-1''\<rparr>"

subsection \<open>The submissions of one write\<close>

text \<open>
  For a \<open>write_transport\<close> call that starts in object \<open>s\<close> and world \<open>w\<close>: the state
  it submits from, whether its i-th submission (from 0) is refused, the deadline it
  computes on entry, and whether the clock reading that follows the i-th refusal is past
  that deadline.
\<close>

definition submitting :: "session \<Rightarrow> session" where
  "submitting s = snd (reopen s)"

definition refused :: "env \<Rightarrow> session \<Rightarrow> bytes \<Rightarrow> world \<Rightarrow> nat \<Rightarrow> bool" where
  "refused e s data w i \<longleftrightarrow>
     status_code (http_post e (posts w + i) (submission_of (submitting s) data)) \<noteq> 200"

definition deadline :: "env \<Rightarrow> world \<Rightarrow> pyfloat \<Rightarrow> pyfloat" where
  "deadline e w timeout_sec = float_add e (Fin (monotonic e (clock_reads w))) timeout_sec"

definition expired :: "env \<Rightarrow> world \<Rightarrow> pyfloat \<Rightarrow> nat \<Rightarrow> bool" where
  "expired e w timeout_sec i \<longleftrightarrow>
     float_less (deadline e w timeout_sec) (Fin (monotonic e (clock_reads w + 1 + i)))"

subsection \<open>The cursor and the buffer\<close>

text \<open>
  The service hands out the whole output so far, so the snapshots for one task are not
  expected to get shorter: \<open>grows\<close> says that of the replies to one request. The
  invariant of an open session: the cursor is inside the buffer, without a task id the
  buffer is empty, and no later snapshot is shorter than the buffer.
\<close>

definition grows :: "env \<Rightarrow> bool" where
  "grows e \<longleftrightarrow>
     (\<forall>i j u t a b.
        i \<le> j \<and> snapshot e (http_get e i u t) = Some a \<and> snapshot e (http_get e j u t) = Some b
        \<longrightarrow> length a \<le> length b)"

definition cursor_inv :: "env \<Rightarrow> session \<Rightarrow> world \<Rightarrow> bool" where
  "cursor_inv e s w \<longleftrightarrow>
     (\<not> closed_flag s \<longrightarrow>
        readpos s \<le> length (readbuf s) \<and>
        (task_id s = None \<longrightarrow> readbuf s = []) \<and>
        (\<forall>k b. gets w \<le> k \<and> snapshot e (http_get e k (url s) (task_id s)) = Some b
                \<longrightarrow> length (readbuf s) \<le> length b))"

subsection \<open>The passes of one read\<close>

text \<open>
  For a \<open>read_transport\<close> call with timeout \<open>timeout_sec\<close> that starts in world \<open>w\<close>:
  the deadline it keeps and the world in which its loop starts. For the loop with result
  \<open>ret\<close> so far, object \<open>s\<close> and world \<open>w\<close>: \<open>continues\<close> says that the pass goes
  round again (after polling and consuming the result is still short, the task is not
  finished and the deadline has not passed), and \<open>next_pass\<close> is where the next pass
  then starts.
\<close>

definition end_time_of :: "env \<Rightarrow> pyfloat option \<Rightarrow> world \<Rightarrow> pyfloat option" where
  "end_time_of e timeout_sec w = map_option (deadline e w) timeout_sec"

definition entry_world :: "pyfloat option \<Rightarrow> world \<Rightarrow> world" where
  "entry_world timeout_sec w = (case timeout_sec of None \<Rightarrow> w | Some d \<Rightarrow> tick w)"

definition continues :: "env \<Rightarrow> int \<Rightarrow> pyfloat option \<Rightarrow> bytes \<times> session \<times> world \<Rightarrow> bool" where
  "continues e n end_time x =
     (case x of (ret, s, w) \<Rightarrow>
        (let (s1, w1) = poll e s w;
             (ret1, s2) = consume n ret s1
         in int (length ret1) < n \<and> \<not> finished s2 \<and>
            (case end_time of
               None \<Rightarrow> True
             | Some d \<Rightarrow> \<not> float_less d (Fin (monotonic e (clock_reads w1))))))"

definition next_pass ::
  "env \<Rightarrow> int \<Rightarrow> pyfloat option \<Rightarrow> bytes \<times> session \<times> world \<Rightarrow> bytes \<times> session \<times> world" where
  "next_pass e n end_time x =
     (case x of (ret, s, w) \<Rightarrow>
        (let (s1, w1) = poll e s w;
             (ret1, s2) = consume n ret s1
         in (ret1, s2, sleep (case end_time of None \<Rightarrow> w1 | Some d \<Rightarrow> tick w1))))"

section \<open>Properties\<close>

subsection \<open>Slices\<close>

lemma py_slice_length_le: "length (py_slice xs (int a) b) \<le> length xs - a"
  by (auto simp: py_slice_def py_bound_def Let_def min_def max_def)

subsection \<open>What a poll changes\<close>

lemma store_output_eq:
  "store_output e out s =
     s\<lparr>readbuf := (case decoded e out of None \<Rightarrow> readbuf s | Some b \<Rightarrow> b)\<rparr>"
  by (cases out) (simp_all add: store_output_def decoded_def split: option.split)

lemma refresh_none: "reply_object r = None \<Longrightarrow> refresh e r s = s"
proof (cases "status_code r = 200")
  case False
  then show ?thesis by (simp add: refresh_def)
next
  case ok: True
  assume none: "reply_object r = None"
  show ?thesis
  proof (cases "json_body r")
    case None
    with ok show ?thesis by (simp add: refresh_def)
  next
    case (Some j)
    with ok none show ?thesis
      by (cases j) (simp_all add: refresh_def refresh_json_def reply_object_def split: if_splits)
  qed
qed

lemma reply_object_SomeD:
  "reply_object r = Some kv \<Longrightarrow>
     status_code r = 200 \<and> json_body r = Some (JObj kv) \<and> map_of kv ''status'' \<noteq> None"
proof -
  assume a: "reply_object r = Some kv"
  then have ok: "status_code r = 200" by (simp add: reply_object_def split: if_splits)
  from a ok obtain j where j: "json_body r = Some j"
    by (cases "json_body r") (simp_all add: reply_object_def)
  from a ok j show ?thesis
    by (cases j) (simp_all add: reply_object_def split: if_splits)
qed

lemma refresh_some:
  assumes "reply_object r = Some kv"
  shows "refresh e r s =
     (let s1 = (if map_of kv ''status'' = Some (JStr ''finished'')
                then s\<lparr>finished := True\<rparr> else s)
      in case map_of kv ''output'' of None \<Rightarrow> s1 | Some out \<Rightarrow> store_output e out s1)"
proof -
  from reply_object_SomeD [OF assms] obtain st where
    "status_code r = 200" "json_body r = Some (JObj kv)" "map_of kv ''status'' = Some st"
    by auto
  then show ?thesis by (simp add: refresh_def refresh_json_def)
qed

text \<open>A poll can only latch \<open>finished\<close> and replace the buffer by the snapshot.\<close>

lemma refresh_eq:
  "refresh e r s =
     s\<lparr>finished := finished s \<or> reports_finished r,
       readbuf := (case snapshot e r of None \<Rightarrow> readbuf s | Some b \<Rightarrow> b)\<rparr>"
proof (cases "reply_object r")
  case None
  then show ?thesis by (simp add: refresh_none reports_finished_def snapshot_def)
next
  case (Some kv)
  then show ?thesis
    by (simp add: refresh_some store_output_eq reports_finished_def snapshot_def Let_def
             split: option.split)
qed

subsection \<open>The read loop\<close>

lemma poll_world:
  "snd (poll e s w) = (if length (readbuf s) \<le> readpos s \<and> \<not> finished s
                       then w\<lparr>gets := gets w + 1\<rparr> else w)"
  by (simp add: poll_def)

lemma poll_fields:
  "closed_flag (fst (poll e s w)) = closed_flag s"
  "task_id (fst (poll e s w)) = task_id s"
  "url (fst (poll e s w)) = url s"
  "readpos (fst (poll e s w)) = readpos s"
  "firmware (fst (poll e s w)) = firmware s"
  "options (fst (poll e s w)) = options s"
  by (simp_all add: poll_def refresh_eq)

lemma poll_finished: "finished s \<Longrightarrow> poll e s w = (s, w)"
  by (simp add: poll_def)

lemma consume_ret: "\<exists>portion. fst (consume n ret s) = ret @ portion \<and>
    snd (consume n ret s) = s\<lparr>readpos := readpos s + length portion\<rparr> \<and>
    readpos s + length portion \<le> max (readpos s) (length (readbuf s))"
proof (cases "length (readbuf s) > readpos s")
  case True
  let ?p = "py_slice (readbuf s) (int (readpos s)) (int (readpos s) + n - int (length ret))"
  have "length ?p \<le> length (readbuf s) - readpos s" by (rule py_slice_length_le)
  with True show ?thesis by (intro exI [of _ ?p]) (simp add: consume_def Let_def)
next
  case False
  then show ?thesis by (intro exI [of _ "[]"]) (simp add: consume_def)
qed

lemma py_slice_length_portion:
  "a \<le> length xs \<Longrightarrow> int l \<le> n \<Longrightarrow>
     length (py_slice xs (int a) (int a + n - int l)) = min (length xs - a) (nat (n - int l))"
  by (auto simp: py_slice_def py_bound_def Let_def min_def)

lemma consume_length:
  assumes "int (length ret) \<le> n"
  shows "int (length (fst (consume n ret s))) \<le> n"
proof (cases "length (readbuf s) > readpos s")
  case True
  then have "length (py_slice (readbuf s) (int (readpos s)) (int (readpos s) + n - int (length ret)))
      = min (length (readbuf s) - readpos s) (nat (n - int (length ret)))"
    using assms by (intro py_slice_length_portion) simp_all
  then show ?thesis using True assms by (simp add: consume_def Let_def)
next
  case False
  with assms show ?thesis by (simp add: consume_def)
qed

lemma read_loop_Suc:
  assumes "poll e s w = (s1, w1)" "consume n ret s1 = (ret1, s2)"
  shows "read_loop e (Suc fuel) n t ret s w =
     (if n \<le> int (length ret1) then Some (Inr (truncate_ret n ret1), s2, w1)
      else if finished s2
      then (if ret1 = [] then Some (Inl IoTimeoutError, s2, w1)
            else Some (Inr (truncate_ret n ret1), s2, w1))
      else (case t of
              None \<Rightarrow> read_loop e fuel n t ret1 s2 (sleep w1)
            | Some d \<Rightarrow>
                if float_less d (Fin (monotonic e (clock_reads w1))) then Some (Inl IoTimeoutError, s2, tick w1)
                else read_loop e fuel n t ret1 s2 (sleep (tick w1))))"
  by (simp add: assms read_clock_def split: option.split)

declare read_loop.simps(2) [simp del]

lemma read_loop_last:
  assumes run: "read_loop e fuel n t ret s w = Some out"
    and I0: "I ret s w"
    and pres: "\<And>ret s w s1 w1 ret1 s2.
       \<lbrakk>I ret s w; poll e s w = (s1, w1); consume n ret s1 = (ret1, s2);
        \<not> n \<le> int (length ret1); \<not> finished s2\<rbrakk>
       \<Longrightarrow> I ret1 s2 (sleep w1) \<and> I ret1 s2 (sleep (tick w1))"
  shows "\<exists>ret0 s0 w0. I ret0 s0 w0 \<and> read_loop e (Suc 0) n t ret0 s0 w0 = Some out"
  using run I0
proof (induction fuel arbitrary: ret s w)
  case 0
  then show ?case by simp
next
  case (Suc fuel)
  obtain s1 w1 where p: "poll e s w = (s1, w1)" by (cases "poll e s w")
  obtain ret1 s2 where c: "consume n ret s1 = (ret1, s2)" by (cases "consume n ret s1")
  note unfold = read_loop_Suc [OF p c]
  show ?case
  proof (cases "n \<le> int (length ret1) \<or> finished s2")
    case True
    then have "read_loop e (Suc 0) n t ret s w = read_loop e (Suc fuel) n t ret s w"
      by (auto simp: unfold)
    with Suc.prems show ?thesis by auto
  next
    case go: False
    then have I1: "I ret1 s2 (sleep w1)" "I ret1 s2 (sleep (tick w1))"
      using pres [OF Suc.prems(2) p c] by auto
    show ?thesis
    proof (cases t)
      case None
      then have "read_loop e fuel n t ret1 s2 (sleep w1) = Some out"
        using Suc.prems(1) go by (simp add: unfold)
      from Suc.IH [OF this I1(1)] show ?thesis .
    next
      case (Some d)
      show ?thesis
      proof (cases "float_less d (Fin (monotonic e (clock_reads w1)))")
        case True
        then have "read_loop e (Suc 0) n t ret s w = read_loop e (Suc fuel) n t ret s w"
          using Some go by (simp add: unfold)
        with Suc.prems show ?thesis by auto
      next
        case False
        then have "read_loop e fuel n t ret1 s2 (sleep (tick w1)) = Some out"
          using Suc.prems(1) go Some by (simp add: unfold)
        from Suc.IH [OF this I1(2)] show ?thesis .
      qed
    qed
  qed
qed

lemma truncate_ret_id: "int (length ret) \<le> n \<Longrightarrow> truncate_ret n ret = ret"
  by (simp add: truncate_ret_def)

lemma read_loop_length:
  assumes "read_loop e fuel n t ret s w = Some (Inr bs, s', w')" "int (length ret) \<le> n"
  shows "int (length bs) \<le> n \<and> (int (length bs) = n \<or> finished s')"
proof -
  from read_loop_last [where I = "\<lambda>ret s w. int (length ret) \<le> n", OF assms(1) assms(2)]
  obtain ret0 s0 w0 where I: "int (length ret0) \<le> n"
    and last: "read_loop e (Suc 0) n t ret0 s0 w0 = Some (Inr bs, s', w')"
    using consume_length by (metis fst_conv)
  obtain s1 w1 where p: "poll e s0 w0 = (s1, w1)" by (cases "poll e s0 w0")
  obtain ret1 s2 where c: "consume n ret0 s1 = (ret1, s2)" by (cases "consume n ret0 s1")
  have len: "int (length ret1) \<le> n" using consume_length [OF I, of s1] c by simp
  from last len show ?thesis
    by (auto simp: read_loop_Suc [OF p c] truncate_ret_id split: if_splits option.splits)
qed

subsection \<open>Clock, sleep and the two loops\<close>

lemma tick_fields [simp]:
  "gets (tick w) = gets w" "posts (tick w) = posts w" "slept (tick w) = slept w"
  "clock_reads (tick w) = Suc (clock_reads w)"
  by (simp_all add: tick_def)

lemma sleep_fields [simp]:
  "gets (sleep w) = gets w" "posts (sleep w) = posts w" "clock_reads (sleep w) = clock_reads w"
  "slept (sleep w) = slept w + 1 / 2"
  by (simp_all add: sleep_def)

lemma write_loop_Suc:
  "write_loop e (Suc fuel) data t s w =
     (if status_code (http_post e (posts w) (submission_of s data)) = 200
      then Some (Inr (), s\<lparr>task_id := Some (text_body (http_post e (posts w) (submission_of s data)))\<rparr>,
                 w\<lparr>posts := posts w + 1\<rparr>)
      else (case t of
              None \<Rightarrow> write_loop e fuel data t s (sleep (w\<lparr>posts := posts w + 1\<rparr>))
            | Some d \<Rightarrow>
                if float_less d (Fin (monotonic e (clock_reads w)))
                then Some (Inl IoTimeoutError, s, tick (w\<lparr>posts := posts w + 1\<rparr>))
                else write_loop e fuel data t s (sleep (tick (w\<lparr>posts := posts w + 1\<rparr>)))))"
  by (simp add: read_clock_def Let_def tick_def split: option.split)

declare write_loop.simps(2) [simp del]

lemma write_loop_result:
  "write_loop e fuel data t s w = Some (res, s', w') \<Longrightarrow>
     gets w' = gets w \<and> posts w < posts w' \<and>
     ((res = Inr () \<and>
       status_code (http_post e (posts w' - 1) (submission_of s data)) = 200 \<and>
       s' = s\<lparr>task_id := Some (text_body (http_post e (posts w' - 1) (submission_of s data)))\<rparr>) \<or>
      (res = Inl IoTimeoutError \<and> s' = s \<and> t \<noteq> None))"
proof (induction fuel arbitrary: w)
  case 0
  then show ?case by simp
next
  case (Suc fuel)
  let ?w1 = "w\<lparr>posts := posts w + 1\<rparr>"
  show ?case
  proof (cases "status_code (http_post e (posts w) (submission_of s data)) = 200")
    case True
    with Suc.prems show ?thesis by (auto simp: write_loop_Suc)
  next
    case fail: False
    show ?thesis
    proof (cases t)
      case None
      with fail Suc.prems have "write_loop e fuel data t s (sleep ?w1) = Some (res, s', w')"
        by (simp add: write_loop_Suc)
      from Suc.IH [OF this] show ?thesis by (simp add: sleep_def)
    next
      case (Some d)
      show ?thesis
      proof (cases "float_less d (Fin (monotonic e (clock_reads w)))")
        case True
        with fail Some Suc.prems show ?thesis by (auto simp: write_loop_Suc tick_def)
      next
        case False
        with fail Some Suc.prems
        have "write_loop e fuel data t s (sleep (tick ?w1)) = Some (res, s', w')"
          by (simp add: write_loop_Suc)
        from Suc.IH [OF this] show ?thesis by (simp add: sleep_def tick_def)
      qed
    qed
  qed
qed

lemma reopen_eq:
  "reopen s = (Inr (),
     if task_id s \<noteq> None
     then (set_options (options s) (close_transport s))
            \<lparr>readpos := 0, readbuf := [], finished := False, closed_flag := False\<rparr>
     else s)"
  by (simp add: reopen_def open_transport_def close_transport_def Let_def)

lemma set_options_fields:
  "task_id (set_options opts s) = task_id s"
  "closed_flag (set_options opts s) = closed_flag s"
  "readpos (set_options opts s) = readpos s"
  "readbuf (set_options opts s) = readbuf s"
  "finished (set_options opts s) = finished s"
  "firmware (set_options opts s) = firmware s"
  by (simp_all add: set_options_def Let_def split: option.split)

lemma consume_zero: "consume 0 [] s = ([], s)"
  by (simp add: consume_def py_slice_def py_bound_def Let_def)

lemma poll_tick: "fst (poll e s (tick w)) = fst (poll e s w)"
  by (simp add: poll_def tick_def)

text \<open>Where a call that has returned stopped: the cursor has moved by what was
  accumulated, and with the flag set an error can only be the end-of-stream timeout of an
  empty result.\<close>

lemma consume_readpos:
  "readpos (snd (consume n ret s)) + length ret = readpos s + length (fst (consume n ret s))"
  "finished (snd (consume n ret s)) = finished s"
  "readbuf (snd (consume n ret s)) = readbuf s"
  "closed_flag (snd (consume n ret s)) = closed_flag s"
  "task_id (snd (consume n ret s)) = task_id s"
  "url (snd (consume n ret s)) = url s"
  by (simp_all add: consume_def Let_def)

lemma read_loop_finished_outcome:
  assumes run: "read_loop e fuel n t [] s w = Some (res, s', w')"
    and pos: "1 \<le> n"
    and fin: "finished s'"
  shows "case res of
           Inl err \<Rightarrow> err = IoTimeoutError \<and> readpos s' = readpos s
         | Inr bs \<Rightarrow> bs \<noteq> [] \<and> int (length bs) \<le> n \<and> readpos s' = readpos s + length bs"
proof -
  define I where "I = (\<lambda>(r::bytes) (c::session) (v::world).
     int (length r) < n \<and> readpos c = readpos s + length r)"
  have I0: "I [] s w" using pos by (simp add: I_def)
  have pres: "I ret1 s2 (sleep w1) \<and> I ret1 s2 (sleep (tick w1))"
    if "I r c v" "poll e c v = (s1, w1)" "consume n r s1 = (ret1, s2)"
       "\<not> n \<le> int (length ret1)" "\<not> finished s2" for r c v s1 w1 ret1 s2
  proof -
    from that(2) have rp: "readpos s1 = readpos c" using poll_fields(4) [of e c v] by simp
    from consume_readpos(1) [of n r s1] that(3)
    have "readpos s2 + length r = readpos s1 + length ret1" by simp
    then show ?thesis using that(1,4) rp by (auto simp: I_def)
  qed
  have "\<exists>r c v. I r c v \<and> read_loop e (Suc 0) n t r c v = Some (res, s', w')"
    by (rule read_loop_last [where I = I, OF run I0]) (rule pres; assumption)
  then obtain r c v where Ic: "I r c v"
    and last: "read_loop e (Suc 0) n t r c v = Some (res, s', w')"
    by blast
  obtain s1 w1 where p: "poll e c v = (s1, w1)" by (cases "poll e c v")
  obtain ret1 s2 where cc: "consume n r s1 = (ret1, s2)" by (cases "consume n r s1")
  from p have rp: "readpos s1 = readpos c" using poll_fields(4) [of e c v] by simp
  from consume_readpos(1) [of n r s1] cc
  have mv: "readpos s2 + length r = readpos s1 + length ret1" by simp
  have len: "int (length ret1) \<le> n" using consume_length [of r n s1] Ic cc by (simp add: I_def)
  from last fin len pos Ic mv rp show ?thesis
    by (auto simp: read_loop_Suc [OF p cc] truncate_ret_id I_def
             split: if_splits option.splits)
qed

lemmas write_defs = write_transport_def write_loop.simps(2) reopen_def submission_of_def
  open_transport_def close_transport_def set_options_def

lemma init_eq: "init None =
     \<lparr>url = PyStr ''https://cloud.all-hw.com/ci/usertask'',
      api_key = PyStr ''85282cff-fc94-4ed1-8633-6c74637e95e0'',
      task_timeout = PyInt 20,
      rate = PyInt 115200,
      log_flag = PyInt 0,
      options = None,
      task_id = None,
      closed_flag = True,
      readpos = 0,
      readbuf = [],
      finished = False,
      firmware = None\<rparr>"
  by (simp add: init_def set_options_def)

lemma read_loop_keeps_finished:
  assumes run: "read_loop e fuel n t ret s w = Some (res, s', w')" and fin: "finished s"
  shows "finished s'"
proof -
  have "\<exists>r c v. finished c \<and> read_loop e (Suc 0) n t r c v = Some (res, s', w')"
  proof (rule read_loop_last [where I = "\<lambda>r c v. finished c", OF run fin])
    fix r c v s1 w1 ret1 s2
    assume "finished c" "poll e c v = (s1, w1)" "consume n r s1 = (ret1, s2)" "\<not> finished s2"
    then have False using poll_finished [of c e v] consume_readpos(2) [of n r s1] by simp
    then show "finished s2 \<and> finished s2" ..
  qed
  then obtain r c v where c: "finished c"
    and last: "read_loop e (Suc 0) n t r c v = Some (res, s', w')" by blast
  obtain ret1 s2 where cc: "consume n r c = (ret1, s2)" by (cases "consume n r c")
  have "finished s2" using consume_readpos(2) [of n r c] cc c by simp
  with last show ?thesis
    by (auto simp: read_loop_Suc [OF poll_finished [OF c] cc] split: if_splits)
qed

lemma read_keeps_finished:
  "read_transport e k n t s w = Some (res, s', w') \<Longrightarrow> finished s \<Longrightarrow> finished s'"
  by (auto simp: read_transport_def read_clock_def split: if_splits option.splits
           dest: read_loop_keeps_finished)

lemma write_loop_state:
  "write_loop e fuel data t s w = Some (res, s', w') \<Longrightarrow>
     finished s' = finished s \<and> readpos s' = readpos s \<and> readbuf s' = readbuf s \<and>
     closed_flag s' = closed_flag s \<and> firmware s' = firmware s \<and> url s' = url s"
  by (drule write_loop_result) auto

lemma write_transport_finished:
  assumes "write_transport e k d t s w = Some (res, s', w')"
  shows "finished s' \<longleftrightarrow> finished s \<and> (closed_flag s \<or> firmware s = None \<or> task_id s = None)"
proof (cases "closed_flag s \<or> firmware s = None")
  case True
  with assms show ?thesis by (auto simp: write_transport_def)
next
  case False
  with assms obtain t' w0 where "write_loop e k d t' (snd (reopen s)) w0 = Some (res, s', w')"
    by (auto simp: write_transport_def reopen_eq read_clock_def split: option.splits)
  from write_loop_state [OF this] False show ?thesis
    by (simp add: reopen_eq set_options_fields)
qed

lemma reopen_fresh:
  assumes "task_id s \<noteq> None"
  shows "snd (reopen s) = snd (open_transport (options s) (close_transport s))"
    and "readpos (snd (reopen s)) = 0" and "readbuf (snd (reopen s)) = []"
    and "\<not> finished (snd (reopen s))" and "task_id (snd (reopen s)) = None"
    and "\<not> closed_flag (snd (reopen s))" and "firmware (snd (reopen s)) = firmware s"
  using assms
  by (simp_all add: reopen_eq open_transport_def close_transport_def set_options_fields)

lemma write_transport_open:
  assumes "\<not> closed_flag s" and "firmware s \<noteq> None"
  shows "write_transport e fuel data t s w =
     (case t of
        None \<Rightarrow> write_loop e fuel data None (snd (reopen s)) w
      | Some d \<Rightarrow>
          write_loop e fuel data (Some (float_add e (Fin (monotonic e (clock_reads w))) d)) (snd (reopen s)) (tick w))"
proof -
  from assms obtain fw where "firmware s = Some fw" by auto
  with assms(1) show ?thesis
    by (simp add: write_transport_def reopen_eq read_clock_def split: option.split)
qed

text \<open>\<open>k\<close> failed attempts with the deadline not yet passed: the loop is where it was, \<open>k\<close>
  submissions, \<open>k\<close> clock readings and \<open>k\<close> sleeps later.\<close>

lemma write_loop_retries:
  assumes "\<forall>i<k. status_code (http_post e (posts w + i) (submission_of s data)) \<noteq> 200 \<and>
                  \<not> float_less d (Fin (monotonic e (clock_reads w + i)))"
  shows "write_loop e (k + fuel) data (Some d) s w =
         write_loop e fuel data (Some d) s
           (w\<lparr>clock_reads := clock_reads w + k, posts := posts w + k,
              slept := slept w + real k / 2\<rparr>)"
  using assms
proof (induction k arbitrary: w)
  case 0
  show ?case by simp
next
  case (Suc k)
  let ?w' = "sleep (tick (w\<lparr>posts := posts w + 1\<rparr>))"
  from Suc.prems have first: "status_code (http_post e (posts w) (submission_of s data)) \<noteq> 200"
    "\<not> float_less d (Fin (monotonic e (clock_reads w)))" by auto
  have rest: "\<forall>i<k. status_code (http_post e (posts ?w' + i) (submission_of s data)) \<noteq> 200 \<and>
                  \<not> float_less d (Fin (monotonic e (clock_reads ?w' + i)))"
    using Suc.prems by (auto simp: less_Suc_eq_0_disj)
  have "write_loop e (Suc k + fuel) data (Some d) s w = write_loop e (k + fuel) data (Some d) s ?w'"
    using first by (simp add: write_loop_Suc)
  also have "\<dots> = write_loop e fuel data (Some d) s
           (?w'\<lparr>clock_reads := clock_reads ?w' + k, posts := posts ?w' + k,
              slept := slept ?w' + real k / 2\<rparr>)"
    by (rule Suc.IH [OF rest])
  also have "?w'\<lparr>clock_reads := clock_reads ?w' + k, posts := posts ?w' + k,
              slept := slept ?w' + real k / 2\<rparr>
      = w\<lparr>clock_reads := clock_reads w + Suc k, posts := posts w + Suc k,
              slept := slept w + real (Suc k) / 2\<rparr>"
    by (simp add: sleep_def tick_def add_divide_distrib)
  finally show ?case .
qed

lemma write_loop_retries_forever:
  assumes "\<forall>i<k. status_code (http_post e (posts w + i) (submission_of s data)) \<noteq> 200"
  shows "write_loop e (k + fuel) data None s w =
         write_loop e fuel data None s
           (w\<lparr>posts := posts w + k, slept := slept w + real k / 2\<rparr>)"
  using assms
proof (induction k arbitrary: w)
  case 0
  show ?case by simp
next
  case (Suc k)
  let ?w' = "sleep (w\<lparr>posts := posts w + 1\<rparr>)"
  from Suc.prems have first: "status_code (http_post e (posts w) (submission_of s data)) \<noteq> 200"
    by auto
  have rest: "\<forall>i<k. status_code (http_post e (posts ?w' + i) (submission_of s data)) \<noteq> 200"
    using Suc.prems by (auto simp: less_Suc_eq_0_disj)
  have "write_loop e (Suc k + fuel) data None s w = write_loop e (k + fuel) data None s ?w'"
    using first by (simp add: write_loop_Suc)
  also have "\<dots> = write_loop e fuel data None s
           (?w'\<lparr>posts := posts ?w' + k, slept := slept ?w' + real k / 2\<rparr>)"
    by (rule Suc.IH [OF rest])
  also have "?w'\<lparr>posts := posts ?w' + k, slept := slept ?w' + real k / 2\<rparr>
      = w\<lparr>posts := posts w + Suc k, slept := slept w + real (Suc k) / 2\<rparr>"
    by (simp add: sleep_def add_divide_distrib)
  finally show ?case .
qed

lemma write_loop_no_timeout:
  "write_loop e fuel data None s w \<noteq> Some (Inl err, s', w')"
  using write_loop_result [of e fuel data None s w "Inl err" s' w'] by auto

lemma write_timeout_no_task_id:
  assumes "write_transport e fuel data t s w = Some (Inl IoTimeoutError, s', w')"
  shows "task_id s' = None"
proof (cases "closed_flag s \<or> firmware s = None")
  case True
  with assms show ?thesis by (auto simp: write_transport_def)
next
  case False
  with assms obtain t' w0 where
    loop: "write_loop e fuel data t' (snd (reopen s)) w0 = Some (Inl IoTimeoutError, s', w')"
    by (auto simp: write_transport_def reopen_eq read_clock_def split: option.splits)
  from write_loop_result [OF loop] have "s' = snd (reopen s)" by auto
  then show ?thesis by (simp add: reopen_eq set_options_fields close_transport_def)
qed

subsection \<open>The cursor invariant\<close>

lemma cursor_inv_clock [simp]:
  "cursor_inv e s (tick w) = cursor_inv e s w" "cursor_inv e s (sleep w) = cursor_inv e s w"
  by (simp_all add: cursor_inv_def)

lemma cursor_inv_closed: "closed_flag s \<Longrightarrow> cursor_inv e s w"
  by (simp add: cursor_inv_def)

lemma cursor_inv_fresh: "readpos s = 0 \<Longrightarrow> readbuf s = [] \<Longrightarrow> cursor_inv e s w"
  by (simp add: cursor_inv_def)

lemma poll_cursor_inv:
  assumes g: "grows e" and inv: "cursor_inv e s w" and op: "\<not> closed_flag s"
    and task: "task_id s \<noteq> None" and p: "poll e s w = (s1, w1)"
  shows "cursor_inv e s1 w1"
proof (cases "length (readbuf s) \<le> readpos s \<and> \<not> finished s")
  case False
  with p have "s1 = s" "w1 = w" by (auto simp: poll_def)
  with inv show ?thesis by simp
next
  case True
  let ?r = "http_get e (gets w) (url s) (task_id s)"
  from True p have s1: "s1 = refresh e ?r s" and w1: "w1 = w\<lparr>gets := gets w + 1\<rparr>"
    by (auto simp: poll_def)
  from inv op have pos: "readpos s \<le> length (readbuf s)"
    and later: "\<And>k b. gets w \<le> k \<Longrightarrow> snapshot e (http_get e k (url s) (task_id s)) = Some b
                  \<Longrightarrow> length (readbuf s) \<le> length b"
    and notask: "task_id s = None \<longrightarrow> readbuf s = []"
    by (auto simp: cursor_inv_def)
  have f: "readpos s1 = readpos s" "url s1 = url s" "task_id s1 = task_id s"
    "gets w1 = gets w + 1"
    by (simp_all add: s1 w1 refresh_eq)
  have later': "length (readbuf s) \<le> length b"
    if "gets w + 1 \<le> k" "snapshot e (http_get e k (url s) (task_id s)) = Some b" for k b
    using later [of k b] that by simp
  show ?thesis
  proof (cases "snapshot e ?r")
    case None
    then have buf: "readbuf s1 = readbuf s" by (simp add: s1 refresh_eq)
    from pos notask later' show ?thesis
      unfolding cursor_inv_def f buf by blast
  next
    case (Some b)
    then have buf: "readbuf s1 = b" by (simp add: s1 refresh_eq)
    have len: "length (readbuf s) \<le> length b" using later [of "gets w" b] Some by simp
    have next_ones: "length b \<le> length b'"
      if "gets w + 1 \<le> k" "snapshot e (http_get e k (url s) (task_id s)) = Some b'" for k b'
    proof -
      from that(1) have "gets w \<le> k" by simp
      with g Some that(2) show ?thesis unfolding grows_def by blast
    qed
    have empty: "task_id s = None \<longrightarrow> b = []"
      using task by blast
    from pos len have "readpos s \<le> length b" by simp
    with empty next_ones show ?thesis
      unfolding cursor_inv_def f buf by blast
  qed
qed

lemma consume_cursor_inv:
  assumes "cursor_inv e s w" and "consume n ret s = (ret1, s2)"
  shows "cursor_inv e s2 w"
proof -
  from consume_ret [of n ret s] assms(2) obtain portion :: bytes where
    s2: "s2 = s\<lparr>readpos := readpos s + length portion\<rparr>"
    and le: "readpos s + length portion \<le> max (readpos s) (length (readbuf s))"
    by auto
  from assms(1) le show ?thesis by (auto simp: cursor_inv_def s2)
qed

lemma read_loop_cursor_inv:
  assumes g: "grows e"
    and run: "read_loop e fuel n t ret s w = Some (res, s', w')"
    and inv: "cursor_inv e s w" and op: "\<not> closed_flag s" and task: "task_id s \<noteq> None"
  shows "cursor_inv e s' w' \<and> \<not> closed_flag s'"
proof -
  define I where "I = (\<lambda>(r::bytes) c v. cursor_inv e c v \<and> \<not> closed_flag c \<and> task_id c \<noteq> None)"
  have body: "I ret1 s2 w1"
    if "I r c v" "poll e c v = (s1, w1)" "consume n r s1 = (ret1, s2)" for r c v s1 w1 ret1 s2
  proof -
    from that(1) have c: "cursor_inv e c v" "\<not> closed_flag c" "task_id c \<noteq> None"
      by (simp_all add: I_def)
    from poll_cursor_inv [OF g c that(2)] have "cursor_inv e s1 w1" .
    from consume_cursor_inv [OF this that(3)] have "cursor_inv e s2 w1" .
    moreover have "closed_flag s2 = closed_flag c" "task_id s2 = task_id c"
      using poll_fields(1,2) [of e c v] consume_readpos(4,5) [of n r s1] that(2,3) by simp_all
    ultimately show ?thesis using c by (simp add: I_def)
  qed
  have I0: "I ret s w" using inv op task by (simp add: I_def)
  have "\<exists>r c v. I r c v \<and> read_loop e (Suc 0) n t r c v = Some (res, s', w')"
  proof (rule read_loop_last [where I = I, OF run I0])
    fix r c v s1 w1 ret1 s2
    assume "I r c v" "poll e c v = (s1, w1)" "consume n r s1 = (ret1, s2)"
    from body [OF this] show "I ret1 s2 (sleep w1) \<and> I ret1 s2 (sleep (tick w1))"
      by (simp add: I_def)
  qed
  then obtain r c v where Ic: "I r c v"
    and last: "read_loop e (Suc 0) n t r c v = Some (res, s', w')" by blast
  obtain s1 w1 where p: "poll e c v = (s1, w1)" by (cases "poll e c v")
  obtain ret1 s2 where cc: "consume n r s1 = (ret1, s2)" by (cases "consume n r s1")
  from body [OF Ic p cc] have "cursor_inv e s2 w1" "\<not> closed_flag s2" by (simp_all add: I_def)
  moreover from last have "s' = s2 \<and> (w' = w1 \<or> w' = tick w1)"
    by (auto simp: read_loop_Suc [OF p cc] split: if_splits option.splits)
  ultimately show ?thesis by auto
qed

lemma read_transport_cursor_inv:
  assumes g: "grows e" and inv: "cursor_inv e s w"
    and run: "read_transport e fuel n t s w = Some (res, s', w')"
  shows "cursor_inv e s' w'"
proof (cases "closed_flag s \<or> task_id s = None")
  case True
  with run inv show ?thesis by (auto simp: read_transport_def split: if_splits)
next
  case False
  with run obtain t' w0 where loop: "read_loop e fuel n t' [] s w0 = Some (res, s', w')"
    and w0: "w0 = w \<or> w0 = tick w"
    by (auto simp: read_transport_def read_clock_def split: option.splits)
  from w0 inv have "cursor_inv e s w0" by auto
  from read_loop_cursor_inv [OF g loop this] False show ?thesis by simp
qed

lemma write_transport_cursor_inv:
  assumes inv: "cursor_inv e s w"
    and run: "write_transport e fuel data t s w = Some (res, s', w')"
  shows "cursor_inv e s' w'"
proof (cases "closed_flag s \<or> firmware s = None")
  case True
  with run inv show ?thesis by (auto simp: write_transport_def)
next
  case False
  with run obtain t' w0 where loop: "write_loop e fuel data t' (snd (reopen s)) w0 = Some (res, s', w')"
    by (auto simp: write_transport_def reopen_eq read_clock_def split: option.splits)
  have "readpos (snd (reopen s)) = 0 \<and> readbuf (snd (reopen s)) = []"
  proof (cases "task_id s = None")
    case True
    with inv False show ?thesis by (auto simp: reopen_eq cursor_inv_def)
  next
    case False
    from reopen_fresh(2,3) [OF this] show ?thesis by blast
  qed
  with write_loop_state [OF loop] show ?thesis by (simp add: cursor_inv_fresh)
qed

lemma step_cursor_inv:
  assumes g: "grows e" and inv: "cursor_inv e s w" and st: "step e fuel c (s, w) = Some (s', w')"
  shows "cursor_inv e s' w'"
proof (cases c)
  case (Flash opts)
  with st inv show ?thesis
    by (cases "closed_flag s") (auto simp: flash_def cursor_inv_closed)
next
  case (OpenTransport opts)
  with st inv show ?thesis
    by (cases "closed_flag s") (auto simp: open_transport_def cursor_inv_fresh)
next
  case CloseTransport
  with st show ?thesis by (auto simp: close_transport_def cursor_inv_closed)
next
  case (ReadTransport n t)
  with st obtain res where "read_transport e fuel n t s w = Some (res, s', w')" by auto
  from read_transport_cursor_inv [OF g inv this] show ?thesis .
next
  case (WriteTransport data t)
  with st obtain res where "write_transport e fuel data t s w = Some (res, s', w')" by auto
  from write_transport_cursor_inv [OF inv this] show ?thesis .
qed

lemma run_cursor_inv:
  "grows e \<Longrightarrow> cursor_inv e s w \<Longrightarrow> run e fuel cs (s, w) = Some (s', w') \<Longrightarrow> cursor_inv e s' w'"
proof (induction cs arbitrary: s w)
  case Nil
  then show ?case by simp
next
  case (Cons c cs)
  from Cons.prems(3) obtain s1 w1 where st: "step e fuel c (s, w) = Some (s1, w1)"
    and rest: "run e fuel cs (s1, w1) = Some (s', w')"
    by (auto split: option.splits)
  from step_cursor_inv [OF Cons.prems(1,2) st] have "cursor_inv e s1 w1" .
  from Cons.IH [OF Cons.prems(1) this rest] show ?case .
qed

lemma init_closed: "closed_flag (init opts)"
  by (simp add: init_def)

lemma grows_demo_env: "grows demo_env"
  by (simp add: grows_def snapshot_def reply_object_def decoded_def demo_env_def status_reply_def)

subsection \<open>Passes of the read loop\<close>

lemma py_slice_take_rest:
  "a \<le> length xs \<Longrightarrow> int l \<le> n \<Longrightarrow>
     py_slice xs (int a) (int a + n - int l) = take (nat (n - int l)) (drop a xs)"
  by (auto simp: py_slice_def py_bound_def Let_def min_def nat_add_distrib nat_diff_distrib)

lemma consume_eq:
  assumes "int (length ret) \<le> n"
  shows "consume n ret s =
     (ret @ take (nat (n - int (length ret))) (drop (readpos s) (readbuf s)),
      s\<lparr>readpos := readpos s +
           length (take (nat (n - int (length ret))) (drop (readpos s) (readbuf s)))\<rparr>)"
proof (cases "readpos s < length (readbuf s)")
  case True
  then have "py_slice (readbuf s) (int (readpos s)) (int (readpos s) + n - int (length ret))
      = take (nat (n - int (length ret))) (drop (readpos s) (readbuf s))"
    using assms by (intro py_slice_take_rest) simp_all
  with True show ?thesis by (simp add: consume_def Let_def)
next
  case False
  then show ?thesis by (simp add: consume_def)
qed

lemma read_transport_entry:
  assumes "\<not> closed_flag s" and "task_id s \<noteq> None"
  shows "read_transport e fuel n t s w =
           read_loop e fuel n (end_time_of e t w) [] s (entry_world t w)"
proof -
  from assms obtain tid where "task_id s = Some tid" by auto
  with assms(1) show ?thesis
    by (simp add: read_transport_def end_time_of_def entry_world_def deadline_def read_clock_def
          split: option.split)
qed

lemma read_loop_continue:
  assumes "continues e n dl (ret, s, w)"
  shows "read_loop e (Suc fuel) n dl ret s w =
           (case next_pass e n dl (ret, s, w) of (r, c, v) \<Rightarrow> read_loop e fuel n dl r c v)"
proof -
  obtain s1 w1 where p: "poll e s w = (s1, w1)" by (cases "poll e s w")
  obtain ret1 s2 where c: "consume n ret s1 = (ret1, s2)" by (cases "consume n ret s1")
  from assms p c show ?thesis
    by (simp add: read_loop_Suc [OF p c] continues_def next_pass_def split: option.splits)
qed

lemma read_loop_passes:
  assumes "\<forall>i<k. continues e n dl ((next_pass e n dl ^^ i) (ret, s, w))"
  shows "read_loop e (k + fuel) n dl ret s w =
           (case (next_pass e n dl ^^ k) (ret, s, w) of (r, c, v) \<Rightarrow> read_loop e fuel n dl r c v)"
  using assms
proof (induction k arbitrary: ret s w)
  case 0
  show ?case by simp
next
  case (Suc k)
  obtain r c v where nx: "next_pass e n dl (ret, s, w) = (r, c, v)"
    by (cases "next_pass e n dl (ret, s, w)")
  from Suc.prems have first: "continues e n dl (ret, s, w)" by auto
  have rest: "\<forall>i<k. continues e n dl ((next_pass e n dl ^^ i) (r, c, v))"
  proof (intro allI impI)
    fix i assume "i < k"
    then have "continues e n dl ((next_pass e n dl ^^ Suc i) (ret, s, w))"
      using Suc.prems by auto
    then show "continues e n dl ((next_pass e n dl ^^ i) (r, c, v))"
      by (simp add: funpow_swap1 nx)
  qed
  have "read_loop e (Suc k + fuel) n dl ret s w = read_loop e (k + fuel) n dl r c v"
    using read_loop_continue [OF first, of "k + fuel"] nx by simp
  also have "\<dots> = (case (next_pass e n dl ^^ k) (r, c, v) of
                     (r', c', v') \<Rightarrow> read_loop e fuel n dl r' c' v')"
    by (rule Suc.IH [OF rest])
  also have "(next_pass e n dl ^^ k) (r, c, v) = (next_pass e n dl ^^ Suc k) (ret, s, w)"
    by (simp add: funpow_swap1 nx)
  finally show ?case .
qed

lemma passes_short:
  assumes "\<forall>i<k. continues e n dl ((next_pass e n dl ^^ i) ([], s, w))" and "1 \<le> n"
  shows "int (length (fst ((next_pass e n dl ^^ k) ([], s, w)))) < n"
proof (cases k)
  case 0
  with assms(2) show ?thesis by simp
next
  case (Suc j)
  obtain r c v where st: "(next_pass e n dl ^^ j) ([], s, w) = (r, c, v)"
    by (cases "(next_pass e n dl ^^ j) ([], s, w)")
  from assms(1) Suc have "continues e n dl (r, c, v)" using st by (metis lessI)
  then have "int (length (fst (next_pass e n dl (r, c, v)))) < n"
    by (auto simp: continues_def next_pass_def Let_def split: prod.splits)
  with Suc st show ?thesis by simp
qed

lemma read_loop_end_of_stream:
  assumes short: "int (length ret) < n" and fin: "finished (fst (poll e s w))"
  shows "read_loop e (Suc fuel) n dl ret s w =
     (let s1 = fst (poll e s w); w1 = snd (poll e s w);
          got = take (nat (n - int (length ret))) (drop (readpos s1) (readbuf s1))
      in if ret @ got = [] then Some (Inl IoTimeoutError, s1, w1)
         else Some (Inr (ret @ got), s1\<lparr>readpos := readpos s1 + length got\<rparr>, w1))"
proof -
  define s1 where "s1 = fst (poll e s w)"
  define w1 where "w1 = snd (poll e s w)"
  define got where "got = take (nat (n - int (length ret))) (drop (readpos s1) (readbuf s1))"
  have p: "poll e s w = (s1, w1)" by (simp add: s1_def w1_def)
  have c: "consume n ret s1 = (ret @ got, s1\<lparr>readpos := readpos s1 + length got\<rparr>)"
    using consume_eq [of ret n s1] short by (simp add: got_def)
  have len: "int (length (ret @ got)) \<le> n" using short by (simp add: got_def)
  have f2: "finished (s1\<lparr>readpos := readpos s1 + length got\<rparr>)" using fin by (simp add: s1_def)
  have pos: "\<not> n \<le> 0" using short by simp
  have "read_loop e (Suc fuel) n dl ret s w =
      (if ret @ got = [] then Some (Inl IoTimeoutError, s1, w1)
       else Some (Inr (ret @ got), s1\<lparr>readpos := readpos s1 + length got\<rparr>, w1))"
    using f2 pos by (simp add: read_loop_Suc [OF p c] truncate_ret_id [OF len])
  then show ?thesis unfolding Let_def s1_def w1_def got_def .
qed

subsection \<open>The concrete objects\<close>

lemma opened_eq:
  "opened =
     \<lparr>url = PyStr ''https://cloud.all-hw.com/ci/usertask'',
      api_key = PyStr ''85282cff-fc94-4ed1-8633-6c74637e95e0'',
      task_timeout = PyInt 20,
      rate = PyInt 115200,
      log_flag = PyInt 0,
      options = None,
      task_id = None,
      closed_flag = False,
      readpos = 0,
      readbuf = [],
      finished = False,
      firmware = Some ''/project/build/zephyr/zephyr.hex''\<rparr>"
  by (simp add: opened_def open_transport_def flash_def init_def set_options_def demo_env_def)

lemmas demo_defs = demo_env_def status_reply_def world0_def submitted_def opened_eq
lemmas read_defs = read_transport_def read_loop.simps(2) poll_def consume_def refresh_def refresh_json_def
  store_output_def py_slice_def py_bound_def is_ascii_def truncate_ret_def read_clock_def tick_def sleep_def

subsection \<open>close\_transport\<close>

text \<open>
  Claim C7. \<open>close_transport\<close> is idempotent: from any state one call marks the
  transport closed, empties the read buffer and clears the task id, and any number of
  further consecutive calls leave the whole object as the first call left it.
\<close>

theorem close_transport_idempotent:
  "closed_flag (close_transport s) \<and> readbuf (close_transport s) = [] \<and>
   task_id (close_transport s) = None \<and>
   (close_transport ^^ Suc k) s = close_transport s"
proof -
  have twice: "close_transport (close_transport s) = close_transport s"
    by (simp add: close_transport_def)
  have "(close_transport ^^ Suc k) s = close_transport s"
  proof (induction k)
    case 0
    show ?case by simp
  next
    case (Suc k)
    have "(close_transport ^^ Suc (Suc k)) s = close_transport ((close_transport ^^ Suc k) s)"
      by simp
    also have "\<dots> = close_transport (close_transport s)" by (simp only: Suc.IH)
    finally show ?case by (simp only: twice)
  qed
  then show ?thesis by (simp add: close_transport_def)
qed

subsection \<open>The guards of read\_transport\<close>

text \<open>
  Claim C9. \<open>read_transport\<close> on a closed transport raises
  \<open>TransportClosedError\<close>, and on an open transport without a task id it raises
  \<open>CITransportUsageError\<close>; in both cases the object and the world are returned
  unchanged, so nothing was polled, no clock was read and no field was assigned. No loop
  iteration is needed: the result is there for every iteration bound.
\<close>

theorem read_transport_guards:
  "(closed_flag s \<longrightarrow>
      read_transport e fuel n t s w = Some (Inl TransportClosedError, s, w)) \<and>
   (\<not> closed_flag s \<and> task_id s = None \<longrightarrow>
      read_transport e fuel n t s w = Some (Inl CITransportUsageError, s, w))"
  by (simp add: read_transport_def)

theorem read_transport_guards_witness:
  "closed_flag (init None) \<and>
   read_transport demo_env 0 5 None (init None) world0
     = Some (Inl TransportClosedError, init None, world0) \<and>
   \<not> closed_flag opened \<and> task_id opened = None \<and>
   read_transport demo_env 0 5 (Some (Fin 1)) opened world0
     = Some (Inl CITransportUsageError, opened, world0)"
  using read_transport_guards [of "init None" demo_env 0 5 None world0]
    read_transport_guards [of opened demo_env 0 5 "Some (Fin 1)" world0]
  by (simp add: init_def opened_eq)

subsection \<open>How much read\_transport returns\<close>

text \<open>
  Claim C4. A call \<open>read_transport(n, timeout_sec)\<close> that returns a byte string
  returns at most \<open>n\<close> bytes, and exactly \<open>n\<close> unless the finished flag is set when
  it returns. \<open>n\<close> is a number of bytes, so the statement is for \<open>0 \<le> n\<close>.
\<close>

theorem read_transport_length:
  assumes "read_transport e fuel n t s w = Some (Inr bs, s', w')" and "0 \<le> n"
  shows "int (length bs) \<le> n \<and> (int (length bs) = n \<or> finished s')"
proof -
  from assms(1) obtain t' w0 where "read_loop e fuel n t' [] s w0 = Some (Inr bs, s', w')"
    by (auto simp: read_transport_def read_clock_def split: if_splits option.splits)
  from read_loop_length [OF this] assms(2) show ?thesis by simp
qed

theorem read_transport_length_witness:
  "read_transport demo_env (Suc 0) 2 None submitted world0
     = Some (Inr [97, 98], submitted\<lparr>readpos := 2, readbuf := [97, 98, 99]\<rparr>,
             world0\<lparr>gets := 1\<rparr>) \<and>
   (0::int) \<le> 2 \<and> int (length [97, 98 :: 8 word]) \<le> 2 \<and>
   (int (length [97, 98 :: 8 word]) = 2 \<or>
    finished (submitted\<lparr>readpos := 2, readbuf := [97, 98, 99]\<rparr>))"
proof -
  have run: "read_transport demo_env (Suc 0) 2 None submitted world0
     = Some (Inr [97, 98], submitted\<lparr>readpos := 2, readbuf := [97, 98, 99]\<rparr>,
             world0\<lparr>gets := 1\<rparr>)"
    by (simp add: demo_defs read_defs)
  have n: "(0::int) \<le> 2" by simp
  from read_transport_length [OF run n] run n show ?thesis by simp
qed


text \<open>
  Claim C10. On an open transport with a task id, \<open>read_transport(0, timeout_sec)\<close>
  returns the empty byte string in its first pass through the loop, whatever the timeout
  and whether or not the task is finished: it never raises \<open>IoTimeoutError\<close>. The only
  remote request is the one poll of that pass, if the pass polls at all.
\<close>

theorem read_transport_zero:
  assumes "\<not> closed_flag s" and "task_id s \<noteq> None"
  shows "read_transport e (Suc fuel) 0 t s w =
           Some (Inr [], fst (poll e s w), snd (poll e s (if t = None then w else tick w)))
         \<and> gets (snd (poll e s (if t = None then w else tick w))) \<le> gets w + 1"
proof -
  have loop: "read_loop e (Suc fuel) 0 t' [] s w0 = Some (Inr [], fst (poll e s w0), snd (poll e s w0))"
    for t' w0
    by (simp add: read_loop_Suc [of e s w0 "fst (poll e s w0)" "snd (poll e s w0)" 0 "[]" "[]" "fst (poll e s w0)"]
          consume_zero truncate_ret_def)
  show ?thesis
  proof (cases t)
    case None
    with assms show ?thesis by (simp add: read_transport_def loop poll_world)
  next
    case (Some d)
    with assms show ?thesis
      by (simp add: read_transport_def read_clock_def loop poll_tick poll_world)
  qed
qed

theorem read_transport_zero_witness:
  "\<not> closed_flag (submitted\<lparr>finished := True\<rparr>) \<and>
   task_id (submitted\<lparr>finished := True\<rparr>) \<noteq> None \<and>
   read_transport silent_env (Suc 0) 0 (Some (Fin 0)) (submitted\<lparr>finished := True\<rparr>) world0
     = Some (Inr [], submitted\<lparr>finished := True\<rparr>, tick world0)"
  using read_transport_zero [of "submitted\<lparr>finished := True\<rparr>" silent_env 0 "Some (Fin 0)" world0]
  by (simp add: submitted_def opened_eq poll_def)

subsection \<open>End of stream\<close>

text \<open>
  Claim C3, as amended. On an open transport with a task id and for \<open>n \<ge> 1\<close>, take any
  pass of the loop that is reached because every pass before it went round again, and let
  \<open>ret\<close> be what those passes have accumulated. If the finished flag is set when this pass
  has polled (it was set before, or this poll sets it), the call ends in this pass: with
  \<open>IoTimeoutError\<close> when \<open>ret\<close> is empty and nothing is unread, and otherwise by
  returning \<open>ret\<close> followed by the unread bytes, up to \<open>n\<close> bytes in all, with the
  cursor moved over what was taken and no error. Accumulating is appending: a pass puts the
  unread bytes, as many as are still missing, behind the result it has. And whenever a
  call ends with the flag set, an error is \<open>IoTimeoutError\<close> with no byte consumed, and
  a result is not empty and is as long as the cursor moved. For \<open>n = 0\<close> the call
  returns the empty string instead of raising, so the claim as stated fails there.
\<close>

theorem read_transport_finished:
  assumes "\<not> closed_flag s" and "task_id s \<noteq> None" and "1 \<le> n"
  shows
   "(\<forall>ret c. int (length ret) \<le> n \<longrightarrow>
       consume n ret c =
         (ret @ take (nat (n - int (length ret))) (drop (readpos c) (readbuf c)),
          c\<lparr>readpos := readpos c +
               length (take (nat (n - int (length ret))) (drop (readpos c) (readbuf c)))\<rparr>)) \<and>
    (case (next_pass e n (end_time_of e t w) ^^ k) ([], s, entry_world t w) of
       (ret, c, v) \<Rightarrow>
         (\<forall>i<k. continues e n (end_time_of e t w)
                   ((next_pass e n (end_time_of e t w) ^^ i) ([], s, entry_world t w))) \<and>
         finished (fst (poll e c v)) \<longrightarrow>
           read_transport e (Suc (k + fuel)) n t s w =
             (let s1 = fst (poll e c v); w1 = snd (poll e c v);
                  got = take (nat (n - int (length ret))) (drop (readpos s1) (readbuf s1))
              in if ret @ got = [] then Some (Inl IoTimeoutError, s1, w1)
                 else Some (Inr (ret @ got), s1\<lparr>readpos := readpos s1 + length got\<rparr>, w1))) \<and>
    (\<forall>j res s' w'.
       read_transport e j n t s w = Some (res, s', w') \<and> finished s' \<longrightarrow>
         (case res of
            Inl err \<Rightarrow> err = IoTimeoutError \<and> readpos s' = readpos s
          | Inr bs \<Rightarrow> bs \<noteq> [] \<and> int (length bs) \<le> n \<and>
                      readpos s' = readpos s + length bs))"
proof -
  let ?dl = "end_time_of e t w"
  let ?x0 = "([]::bytes, s, entry_world t w)"
  note entry = read_transport_entry [OF assms(1,2)]
  have A: "\<forall>ret c. int (length ret) \<le> n \<longrightarrow>
       consume n ret c =
         (ret @ take (nat (n - int (length ret))) (drop (readpos c) (readbuf c)),
          c\<lparr>readpos := readpos c +
               length (take (nat (n - int (length ret))) (drop (readpos c) (readbuf c)))\<rparr>)"
    using consume_eq by blast
  obtain ret c v where st: "(next_pass e n ?dl ^^ k) ?x0 = (ret, c, v)"
    by (cases "(next_pass e n ?dl ^^ k) ?x0")
  have B: "read_transport e (Suc (k + fuel)) n t s w =
             (let s1 = fst (poll e c v); w1 = snd (poll e c v);
                  got = take (nat (n - int (length ret))) (drop (readpos s1) (readbuf s1))
              in if ret @ got = [] then Some (Inl IoTimeoutError, s1, w1)
                 else Some (Inr (ret @ got), s1\<lparr>readpos := readpos s1 + length got\<rparr>, w1))"
    if conts: "\<forall>i<k. continues e n ?dl ((next_pass e n ?dl ^^ i) ?x0)"
      and fin: "finished (fst (poll e c v))"
  proof -
    have short: "int (length ret) < n" using passes_short [OF conts assms(3)] st by simp
    have "read_transport e (Suc (k + fuel)) n t s w
            = read_loop e (k + Suc fuel) n ?dl [] s (entry_world t w)"
      by (simp add: entry)
    also have "\<dots> = read_loop e (Suc fuel) n ?dl ret c v"
      using read_loop_passes [OF conts, of "Suc fuel"] st by simp
    finally show ?thesis by (simp only: read_loop_end_of_stream [OF short fin])
  qed
  have C: "case res of
            Inl err \<Rightarrow> err = IoTimeoutError \<and> readpos s' = readpos s
          | Inr bs \<Rightarrow> bs \<noteq> [] \<and> int (length bs) \<le> n \<and> readpos s' = readpos s + length bs"
    if "read_transport e j n t s w = Some (res, s', w') \<and> finished s'" for j res s' w'
  proof -
    from that have "read_loop e j n ?dl [] s (entry_world t w) = Some (res, s', w')"
      by (simp add: entry)
    from read_loop_finished_outcome [OF this assms(3)] that show ?thesis by simp
  qed
  show ?thesis
  proof (intro conjI)
    show "\<forall>ret c. int (length ret) \<le> n \<longrightarrow>
       consume n ret c =
         (ret @ take (nat (n - int (length ret))) (drop (readpos c) (readbuf c)),
          c\<lparr>readpos := readpos c +
               length (take (nat (n - int (length ret))) (drop (readpos c) (readbuf c)))\<rparr>)"
      by (rule A)
  next
    show "case (next_pass e n ?dl ^^ k) ?x0 of
       (ret, c, v) \<Rightarrow>
         (\<forall>i<k. continues e n ?dl ((next_pass e n ?dl ^^ i) ?x0)) \<and>
         finished (fst (poll e c v)) \<longrightarrow>
           read_transport e (Suc (k + fuel)) n t s w =
             (let s1 = fst (poll e c v); w1 = snd (poll e c v);
                  got = take (nat (n - int (length ret))) (drop (readpos s1) (readbuf s1))
              in if ret @ got = [] then Some (Inl IoTimeoutError, s1, w1)
                 else Some (Inr (ret @ got), s1\<lparr>readpos := readpos s1 + length got\<rparr>, w1))"
      unfolding st prod.case using B by blast
  next
    show "\<forall>j res s' w'.
       read_transport e j n t s w = Some (res, s', w') \<and> finished s' \<longrightarrow>
         (case res of
            Inl err \<Rightarrow> err = IoTimeoutError \<and> readpos s' = readpos s
          | Inr bs \<Rightarrow> bs \<noteq> [] \<and> int (length bs) \<le> n \<and>
                      readpos s' = readpos s + length bs)"
      using C by blast
  qed
qed

theorem read_transport_finished_witness:
  "\<not> closed_flag submitted \<and> task_id submitted \<noteq> None \<and> (1::int) \<le> 10 \<and>
   continues demo_env 10 None ([], submitted, world0) \<and>
   next_pass demo_env 10 None ([], submitted, world0)
     = ([97, 98, 99], submitted\<lparr>readpos := 3, readbuf := [97, 98, 99]\<rparr>,
        world0\<lparr>gets := 1, slept := 1 / 2\<rparr>) \<and>
   finished (fst (poll demo_env (submitted\<lparr>readpos := 3, readbuf := [97, 98, 99]\<rparr>)
                    (world0\<lparr>gets := 1, slept := 1 / 2\<rparr>))) \<and>
   read_transport demo_env (Suc (Suc 0)) 10 None submitted world0
     = Some (Inr [97, 98, 99],
             submitted\<lparr>readpos := 3, readbuf := [97, 98, 99], finished := True\<rparr>,
             world0\<lparr>gets := 2, slept := 1 / 2\<rparr>) \<and>
   finished (fst (poll silent_env submitted world0)) \<and>
   read_transport silent_env (Suc 0) 10 (Some (Fin 5)) submitted world0
     = Some (Inl IoTimeoutError, submitted\<lparr>finished := True\<rparr>,
             world0\<lparr>clock_reads := 1, gets := 1\<rparr>)"
  using read_transport_finished
      [where s = submitted and n = 10 and e = demo_env and t = None and w = world0
         and k = "Suc 0" and fuel = 0]
    read_transport_finished
      [where s = submitted and n = 10 and e = silent_env and t = "Some (Fin 5)" and w = world0
         and k = 0 and fuel = 0]
  by (simp add: continues_def next_pass_def end_time_of_def entry_world_def poll_def consume_def
        py_slice_def py_bound_def refresh_def refresh_json_def store_output_def is_ascii_def
        silent_env_def demo_defs sleep_def tick_def Let_def)

theorem read_transport_finished_counterexample:
  "run silent_env (Suc 0)
       [Flash None, OpenTransport None, WriteTransport [] None, ReadTransport 1 None]
       (init None, world0)
     = Some (submitted\<lparr>finished := True\<rparr>, world0\<lparr>gets := 1, posts := 1\<rparr>) \<and>
   read_transport silent_env (Suc 0) 0 None (submitted\<lparr>finished := True\<rparr>)
       (world0\<lparr>gets := 1, posts := 1\<rparr>)
     = Some (Inr [], submitted\<lparr>finished := True\<rparr>, world0\<lparr>gets := 1, posts := 1\<rparr>)"
  by (simp add: init_eq flash_def silent_env_def demo_defs read_defs write_defs)

subsection \<open>The finished flag\<close>

text \<open>
  Claim C6, as amended. Once the finished flag is set it is cleared only by a close and
  reopen of the session. \<open>close_transport\<close> alone leaves it as it is, \<open>read_transport\<close>
  leaves it set, and \<open>write_transport\<close> leaves it set exactly when it does not reopen:
  when it raises the closed-transport error or when there is no task id. A
  \<open>write_transport\<close> on an open session that has a task id closes and reopens it before it
  submits, and so clears the flag: as stated, with \<open>open_transport\<close> and \<open>flash\<close> the
  only operations that clear it, the claim fails.
\<close>

theorem finished_cleared_by_reopen_only:
  "finished (close_transport s) = finished s \<and>
   (\<forall>k n t w res s' w'.
      finished s \<and> read_transport e k n t s w = Some (res, s', w') \<longrightarrow> finished s') \<and>
   (\<forall>k d t w res s' w'.
      finished s \<and> write_transport e k d t s w = Some (res, s', w') \<longrightarrow>
        (finished s' \<longleftrightarrow> closed_flag s \<or> firmware s = None \<or> task_id s = None))"
proof (intro conjI allI impI)
  show "finished (close_transport s) = finished s" by (simp add: close_transport_def)
next
  fix k n t w res s' w'
  assume "finished s \<and> read_transport e k n t s w = Some (res, s', w')"
  then show "finished s'" using read_keeps_finished by blast
next
  fix k d t w res s' w'
  assume "finished s \<and> write_transport e k d t s w = Some (res, s', w')"
  then show "finished s' \<longleftrightarrow> closed_flag s \<or> firmware s = None \<or> task_id s = None"
    by (auto dest: write_transport_finished)
qed

theorem finished_cleared_by_reopen_only_witness:
  "finished (submitted\<lparr>readpos := 3, readbuf := [97, 98, 99], finished := True\<rparr>) \<and>
   read_transport demo_env (Suc 0) 1 None
       (submitted\<lparr>readpos := 3, readbuf := [97, 98, 99], finished := True\<rparr>) world0
     = Some (Inl IoTimeoutError,
             submitted\<lparr>readpos := 3, readbuf := [97, 98, 99], finished := True\<rparr>, world0) \<and>
   write_transport demo_env (Suc 0) [] None (opened\<lparr>finished := True\<rparr>) world0
     = Some (Inr (), submitted\<lparr>finished := True\<rparr>, world0\<lparr>posts := 1\<rparr>) \<and>
   finished (submitted\<lparr>finished := True\<rparr>) \<and> task_id (opened\<lparr>finished := True\<rparr>) = None"
  using finished_cleared_by_reopen_only
    [of "submitted\<lparr>readpos := 3, readbuf := [97, 98, 99], finished := True\<rparr>" demo_env]
    finished_cleared_by_reopen_only [of "opened\<lparr>finished := True\<rparr>" demo_env]
  by (simp add: demo_defs read_defs write_defs)

theorem finished_cleared_counterexample:
  "run demo_env (Suc 0)
       [Flash None, OpenTransport None, WriteTransport [] None, ReadTransport 3 None,
        ReadTransport 1 None]
       (init None, world0)
     = Some (submitted\<lparr>readpos := 3, readbuf := [97, 98, 99], finished := True\<rparr>,
             world0\<lparr>gets := 2, posts := 1\<rparr>) \<and>
   write_transport demo_env (Suc 0) [] None
       (submitted\<lparr>readpos := 3, readbuf := [97, 98, 99], finished := True\<rparr>)
       (world0\<lparr>gets := 2, posts := 1\<rparr>)
     = Some (Inr (), submitted, world0\<lparr>gets := 2, posts := 2\<rparr>) \<and>
   \<not> finished submitted"
  by (simp add: init_eq flash_def demo_defs read_defs write_defs Let_def)

subsection \<open>A second write\<close>

text \<open>
  Claim C5. A \<open>write_transport\<close> on an open transport that already has a task id first
  closes and reopens the session: it submits from the state that \<open>close_transport\<close>
  followed by \<open>open_transport(self.options)\<close> leaves, in which the cursor is 0, the buffer
  is empty, the finished flag is clear and there is no task id. When the call succeeds, the
  task id it records is the body of the accepted submission of this call, and cursor,
  buffer and flag are still those of the fresh session.
\<close>

theorem write_transport_reopens:
  assumes "\<not> closed_flag s" and "firmware s \<noteq> None" and "task_id s \<noteq> None"
  shows "write_transport e fuel data t s w =
           (case t of
              None \<Rightarrow>
                write_loop e fuel data None
                  (snd (open_transport (options s) (close_transport s))) w
            | Some d \<Rightarrow>
                write_loop e fuel data (Some (float_add e (Fin (monotonic e (clock_reads w))) d))
                  (snd (open_transport (options s) (close_transport s))) (tick w)) \<and>
         readpos (snd (open_transport (options s) (close_transport s))) = 0 \<and>
         readbuf (snd (open_transport (options s) (close_transport s))) = [] \<and>
         \<not> finished (snd (open_transport (options s) (close_transport s))) \<and>
         task_id (snd (open_transport (options s) (close_transport s))) = None \<and>
         \<not> closed_flag (snd (open_transport (options s) (close_transport s))) \<and>
         (\<forall>s' w'. write_transport e fuel data t s w = Some (Inr (), s', w') \<longrightarrow>
            posts w < posts w' \<and>
            status_code (http_post e (posts w' - 1)
              (submission_of (snd (open_transport (options s) (close_transport s))) data)) = 200 \<and>
            task_id s' = Some (text_body (http_post e (posts w' - 1)
              (submission_of (snd (open_transport (options s) (close_transport s))) data))) \<and>
            readpos s' = 0 \<and> readbuf s' = [] \<and> \<not> finished s' \<and> \<not> closed_flag s')"
proof -
  let ?s1 = "snd (open_transport (options s) (close_transport s))"
  note fresh = reopen_fresh [OF assms(3)]
  have eq: "write_transport e fuel data t s w =
           (case t of
              None \<Rightarrow> write_loop e fuel data None ?s1 w
            | Some d \<Rightarrow>
                write_loop e fuel data (Some (float_add e (Fin (monotonic e (clock_reads w))) d)) ?s1 (tick w))"
    using write_transport_open [OF assms(1,2), of e fuel data t w] by (simp only: fresh(1))
  have f: "readpos ?s1 = 0" "readbuf ?s1 = []" "\<not> finished ?s1" "task_id ?s1 = None"
    "\<not> closed_flag ?s1"
    using fresh by simp_all
  have post: "posts w < posts w' \<and>
            status_code (http_post e (posts w' - 1) (submission_of ?s1 data)) = 200 \<and>
            task_id s' = Some (text_body (http_post e (posts w' - 1) (submission_of ?s1 data))) \<and>
            readpos s' = 0 \<and> readbuf s' = [] \<and> \<not> finished s' \<and> \<not> closed_flag s'"
    if "write_transport e fuel data t s w = Some (Inr (), s', w')" for s' w'
  proof -
    from that eq obtain t' w0 where loop: "write_loop e fuel data t' ?s1 w0 = Some (Inr (), s', w')"
      and w0: "posts w0 = posts w"
      by (cases t) auto
    from write_loop_result [OF loop] w0 f show ?thesis by auto
  qed
  from eq f post show ?thesis by blast
qed

theorem write_transport_reopens_witness:
  "\<not> closed_flag (submitted\<lparr>readpos := 3, readbuf := [97, 98, 99], finished := True\<rparr>) \<and>
   firmware (submitted\<lparr>readpos := 3, readbuf := [97, 98, 99], finished := True\<rparr>) \<noteq> None \<and>
   task_id (submitted\<lparr>readpos := 3, readbuf := [97, 98, 99], finished := True\<rparr>) \<noteq> None \<and>
   write_transport (demo_env\<lparr>http_post := (\<lambda>k sub. \<lparr>status_code = 200, text_body = ''task-2'', json_body = None\<rparr>)\<rparr>)
       (Suc 0) [1, 2] (Some (Fin 5))
       (submitted\<lparr>readpos := 3, readbuf := [97, 98, 99], finished := True\<rparr>) world0
     = Some (Inr (), opened\<lparr>task_id := Some ''task-2''\<rparr>, world0\<lparr>clock_reads := 1, posts := 1\<rparr>)"
  using write_transport_reopens
    [of "submitted\<lparr>readpos := 3, readbuf := [97, 98, 99], finished := True\<rparr>"
        "demo_env\<lparr>http_post := (\<lambda>k sub. \<lparr>status_code = 200, text_body = ''task-2'', json_body = None\<rparr>)\<rparr>"
        "Suc 0" "[1, 2]" "Some (Fin 5)" world0]
  by (simp add: demo_defs write_defs write_loop_Suc tick_def)

subsection \<open>Retrying a submission\<close>

text \<open>
  Claim C8. On an open transport with firmware, \<open>write_transport\<close> with a timeout reads
  the clock once on entry and keeps \<open>deadline = now + timeout_sec\<close> for the whole call;
  the sum is the float addition of the environment, whatever it rounds to.
  It submits; after each refused submission it reads the clock, raises \<open>IoTimeoutError\<close>
  when the reading is past the deadline, and otherwise sleeps half a second and submits
  again. So the call succeeds at the first accepted submission if no earlier check found
  the deadline passed, it raises at the first such check if every submission up to then
  was refused, and while neither has happened it is still retrying. With
  \<open>timeout_sec = None\<close> no clock is read: the call succeeds at the first accepted
  submission, retries as long as submissions are refused, and never raises.
\<close>

theorem write_transport_deadline:
  assumes "\<not> closed_flag s" and "firmware s \<noteq> None"
  shows
   "((\<forall>i<k. refused e s data w i \<and> \<not> expired e w tmo i) \<and> \<not> refused e s data w k \<longrightarrow>
       write_transport e (Suc (k + fuel)) data (Some tmo) s w =
         Some (Inr (),
               (submitting s)\<lparr>task_id :=
                  Some (text_body (http_post e (posts w + k) (submission_of (submitting s) data)))\<rparr>,
               w\<lparr>clock_reads := clock_reads w + 1 + k, posts := posts w + k + 1,
                  slept := slept w + real k / 2\<rparr>)) \<and>
    ((\<forall>i<k. refused e s data w i \<and> \<not> expired e w tmo i) \<and>
     refused e s data w k \<and> expired e w tmo k \<longrightarrow>
       write_transport e (Suc (k + fuel)) data (Some tmo) s w =
         Some (Inl IoTimeoutError, submitting s,
               w\<lparr>clock_reads := clock_reads w + 2 + k, posts := posts w + k + 1,
                  slept := slept w + real k / 2\<rparr>)) \<and>
    ((\<forall>i<k. refused e s data w i \<and> \<not> expired e w tmo i) \<longrightarrow>
       write_transport e k data (Some tmo) s w = None) \<and>
    ((\<forall>i<k. refused e s data w i) \<and> \<not> refused e s data w k \<longrightarrow>
       write_transport e (Suc (k + fuel)) data None s w =
         Some (Inr (),
               (submitting s)\<lparr>task_id :=
                  Some (text_body (http_post e (posts w + k) (submission_of (submitting s) data)))\<rparr>,
               w\<lparr>posts := posts w + k + 1, slept := slept w + real k / 2\<rparr>)) \<and>
    ((\<forall>i<k. refused e s data w i) \<longrightarrow> write_transport e k data None s w = None) \<and>
    write_transport e fuel data None s w \<noteq> Some (Inl err, s', w')"
proof -
  let ?s1 = "submitting s"
  let ?dl = "float_add e (Fin (monotonic e (clock_reads w))) tmo"
  have some: "write_transport e n data (Some tmo) s w = write_loop e n data (Some ?dl) ?s1 (tick w)"
    and none: "write_transport e n data None s w = write_loop e n data None ?s1 w" for n
    using write_transport_open [OF assms] by (simp_all add: submitting_def)
  have retries: "write_loop e (k + n) data (Some ?dl) ?s1 (tick w) =
      write_loop e n data (Some ?dl) ?s1
        (w\<lparr>clock_reads := clock_reads w + 1 + k, posts := posts w + k,
           slept := slept w + real k / 2\<rparr>)"
    if "\<forall>i<k. refused e s data w i \<and> \<not> expired e w tmo i" for n
  proof -
    from that have "\<forall>i<k. status_code (http_post e (posts (tick w) + i) (submission_of ?s1 data)) \<noteq> 200 \<and>
                  \<not> float_less ?dl (Fin (monotonic e (clock_reads (tick w) + i)))"
      by (simp add: refused_def expired_def deadline_def)
    from write_loop_retries [OF this, of n] show ?thesis by (simp add: tick_def)
  qed
  have forever: "write_loop e (k + n) data None ?s1 w =
      write_loop e n data None ?s1 (w\<lparr>posts := posts w + k, slept := slept w + real k / 2\<rparr>)"
    if "\<forall>i<k. refused e s data w i" for n
  proof -
    from that have "\<forall>i<k. status_code (http_post e (posts w + i) (submission_of ?s1 data)) \<noteq> 200"
      by (simp add: refused_def)
    from write_loop_retries_forever [OF this, of n] show ?thesis .
  qed
  have c1: "write_transport e (Suc (k + fuel)) data (Some tmo) s w =
         Some (Inr (),
               ?s1\<lparr>task_id := Some (text_body (http_post e (posts w + k) (submission_of ?s1 data)))\<rparr>,
               w\<lparr>clock_reads := clock_reads w + 1 + k, posts := posts w + k + 1,
                  slept := slept w + real k / 2\<rparr>)"
    if "(\<forall>i<k. refused e s data w i \<and> \<not> expired e w tmo i) \<and> \<not> refused e s data w k"
  proof -
    from that have ok: "status_code (http_post e (posts w + k) (submission_of ?s1 data)) = 200"
      by (simp add: refused_def)
    from that retries [of "Suc fuel"] ok show ?thesis
      by (simp add: some write_loop_Suc)
  qed
  have c2: "write_transport e (Suc (k + fuel)) data (Some tmo) s w =
         Some (Inl IoTimeoutError, ?s1,
               w\<lparr>clock_reads := clock_reads w + 2 + k, posts := posts w + k + 1,
                  slept := slept w + real k / 2\<rparr>)"
    if "(\<forall>i<k. refused e s data w i \<and> \<not> expired e w tmo i) \<and>
        refused e s data w k \<and> expired e w tmo k"
  proof -
    from that have bad: "status_code (http_post e (posts w + k) (submission_of ?s1 data)) \<noteq> 200"
      and late: "float_less ?dl (Fin (monotonic e (clock_reads w + 1 + k)))"
      by (simp_all add: refused_def expired_def deadline_def)
    from that retries [of "Suc fuel"] bad late show ?thesis
      by (simp add: some write_loop_Suc tick_def)
  qed
  have c3: "write_transport e k data (Some tmo) s w = None"
    if "\<forall>i<k. refused e s data w i \<and> \<not> expired e w tmo i"
    using retries [OF that, of 0] by (simp add: some)
  have c4: "write_transport e (Suc (k + fuel)) data None s w =
         Some (Inr (),
               ?s1\<lparr>task_id := Some (text_body (http_post e (posts w + k) (submission_of ?s1 data)))\<rparr>,
               w\<lparr>posts := posts w + k + 1, slept := slept w + real k / 2\<rparr>)"
    if "(\<forall>i<k. refused e s data w i) \<and> \<not> refused e s data w k"
  proof -
    from that have ok: "status_code (http_post e (posts w + k) (submission_of ?s1 data)) = 200"
      by (simp add: refused_def)
    from that forever [of "Suc fuel"] ok show ?thesis
      by (simp add: none write_loop_Suc)
  qed
  have c5: "write_transport e k data None s w = None" if "\<forall>i<k. refused e s data w i"
    using forever [OF that, of 0] by (simp add: none)
  have c6: "write_transport e fuel data None s w \<noteq> Some (Inl err, s', w')"
    by (simp add: none write_loop_no_timeout)
  from c1 c2 c3 c4 c5 c6 show ?thesis by blast
qed

theorem write_transport_deadline_witness:
  "\<not> closed_flag opened \<and> firmware opened \<noteq> None \<and>
   refused refusing_env opened [] world0 0 \<and> \<not> expired refusing_env world0 (Fin 1) 0 \<and>
   refused refusing_env opened [] world0 (Suc 0) \<and> expired refusing_env world0 (Fin 1) (Suc 0) \<and>
   write_transport refusing_env (Suc (Suc 0)) [] (Some (Fin 1)) opened world0
     = Some (Inl IoTimeoutError, opened,
             world0\<lparr>clock_reads := 3, posts := 2, slept := 1 / 2\<rparr>) \<and>
   write_transport refusing_env (Suc 0) [] None opened world0 = None \<and>
   \<not> refused demo_env opened [] world0 0 \<and>
   write_transport demo_env (Suc 0) [] (Some (Fin 1)) opened world0
     = Some (Inr (), submitted, world0\<lparr>clock_reads := 1, posts := 1\<rparr>)"
  using write_transport_deadline [of opened "Suc 0" refusing_env "[]" world0 "Fin 1" 0]
    write_transport_deadline [of opened 0 demo_env "[]" world0 "Fin 1" 0]
  by (simp add: refused_def expired_def deadline_def submitting_def reopen_eq refusing_env_def
        demo_defs submission_of_def less_Suc_eq_0_disj)

subsection \<open>A read that times out\<close>

text \<open>
  Claim C2. A failed call should leave no partial state: a \<open>write_transport\<close> that raises
  \<open>IoTimeoutError\<close> leaves no task id (lemma \<open>write_timeout_no_task_id\<close>), and a
  failed \<open>read_transport\<close> should leave cursor and buffer so that a retry can still
  return every byte not yet delivered. The read side does not hold. The task is running
  with output \<open>abc\<close>; \<open>read_transport(10, 0)\<close> polls, moves the three bytes to its
  result and the cursor to 3, then finds the deadline passed and raises: the three bytes
  were never returned and the cursor is behind them. The retry \<open>read_transport(3, None)\<close>
  polls, learns that the task has finished with the same output, finds nothing unread and
  raises the end-of-stream timeout, so \<open>abc\<close> is lost.
\<close>

theorem read_timeout_loses_bytes:
  "read_transport demo_env (Suc 0) 10 (Some (Fin 0)) submitted world0
     = Some (Inl IoTimeoutError, submitted\<lparr>readpos := 3, readbuf := [97, 98, 99]\<rparr>,
             world0\<lparr>clock_reads := 2, gets := 1\<rparr>) \<and>
   read_transport demo_env (Suc 0) 3 None (submitted\<lparr>readpos := 3, readbuf := [97, 98, 99]\<rparr>)
       (world0\<lparr>clock_reads := 2, gets := 1\<rparr>)
     = Some (Inl IoTimeoutError,
             submitted\<lparr>readpos := 3, readbuf := [97, 98, 99], finished := True\<rparr>,
             world0\<lparr>clock_reads := 2, gets := 2\<rparr>)"
  by (simp add: demo_defs read_defs Let_def)

subsection \<open>The cursor stays inside the buffer\<close>

text \<open>
  Claim C1, as amended. After any sequence of \<open>flash\<close>, \<open>open_transport\<close>,
  \<open>write_transport\<close>, \<open>read_transport\<close> and \<open>close_transport\<close> calls on a new
  object, if the transport is open then the read cursor is at most the length of the read
  buffer, provided the service's output snapshots for a request never get shorter. While
  the transport is closed the bound need not hold: \<open>close_transport\<close> empties the buffer
  and leaves the cursor, which \<open>open_transport\<close> resets before it can be used again.
\<close>

theorem cursor_within_buffer_when_open:
  assumes "grows e" and "run e fuel cs (init opts, w) = Some (s', w')" and "\<not> closed_flag s'"
  shows "readpos s' \<le> length (readbuf s')"
proof -
  have "cursor_inv e (init opts) w" by (simp add: cursor_inv_closed init_closed)
  from run_cursor_inv [OF assms(1) this assms(2)] assms(3) show ?thesis
    by (simp add: cursor_inv_def)
qed

theorem cursor_within_buffer_when_open_witness:
  "grows demo_env \<and>
   run demo_env (Suc 0)
       [Flash None, OpenTransport None, WriteTransport [1] None, ReadTransport 2 None]
       (init None, world0)
     = Some (submitted\<lparr>readpos := 2, readbuf := [97, 98, 99]\<rparr>, world0\<lparr>gets := 1, posts := 1\<rparr>) \<and>
   \<not> closed_flag (submitted\<lparr>readpos := 2, readbuf := [97, 98, 99]\<rparr>) \<and>
   readpos (submitted\<lparr>readpos := 2, readbuf := [97, 98, 99]\<rparr>)
     \<le> length (readbuf (submitted\<lparr>readpos := 2, readbuf := [97, 98, 99]\<rparr>))"
proof -
  have run: "run demo_env (Suc 0)
       [Flash None, OpenTransport None, WriteTransport [1] None, ReadTransport 2 None]
       (init None, world0)
     = Some (submitted\<lparr>readpos := 2, readbuf := [97, 98, 99]\<rparr>, world0\<lparr>gets := 1, posts := 1\<rparr>)"
    by (simp add: init_eq flash_def demo_defs read_defs write_defs Let_def)
  have op: "\<not> closed_flag (submitted\<lparr>readpos := 2, readbuf := [97, 98, 99]\<rparr>)"
    by (simp add: submitted_def opened_eq)
  from cursor_within_buffer_when_open [OF grows_demo_env run op] grows_demo_env run op
  show ?thesis by simp
qed

theorem cursor_after_close_counterexample:
  "run demo_env (Suc 0)
       [Flash None, OpenTransport None, WriteTransport [1] None, ReadTransport 3 None,
        CloseTransport]
       (init None, world0)
     = Some (submitted\<lparr>task_id := None, closed_flag := True, readpos := 3, readbuf := []\<rparr>,
             world0\<lparr>gets := 1, posts := 1\<rparr>) \<and>
   \<not> readpos (submitted\<lparr>task_id := None, closed_flag := True, readpos := 3, readbuf := []\<rparr>)
       \<le> length (readbuf (submitted\<lparr>task_id := None, closed_flag := True, readpos := 3,
                                    readbuf := []\<rparr>))"
  by (simp add: init_eq flash_def demo_defs read_defs write_defs Let_def)

text \<open>
  The proviso on the snapshots is needed: a poll replaces the buffer by whatever the
  service sends, and a snapshot shorter than the cursor leaves the cursor beyond the
  buffer of an open transport. The loop then sees nothing unread and polls again.
\<close>

lemma cursor_past_shrunk_buffer:
  "run shrinking_env (Suc 0)
       [Flash None, OpenTransport None, WriteTransport [1] None, ReadTransport 3 None,
        ReadTransport 1 (Some (Fin 0))]
       (init None, world0)
     = Some (submitted\<lparr>readpos := 3, readbuf := []\<rparr>,
             world0\<lparr>clock_reads := 2, gets := 2, posts := 1\<rparr>)"
  by (simp add: init_eq flash_def shrinking_env_def demo_defs read_defs write_defs Let_def)

end
